theory Spec2Isabelle
  imports Complex_Main
begin

chapter \<open>The model\<close>

section \<open>Price validation: outlier detection\<close>

text \<open>
  \<^verbatim>\<open>PriceValidationAgent.detect_outliers\<close> (docs/ARCHITECTURE.md). The history manager and the
  outlier detector are collaborators whose bodies are not part of the repository; they are
  parameters of the model:
  \<^item> \<open>get_prices\<close>: the trailing history of a product id,
  \<^item> \<open>detect\<close>: the detector's verdict on a price against a history,
  \<^item> \<open>get_expected_range\<close>: the range computed from a history,
  \<^item> \<open>get_confidence\<close>: the source calls it without arguments, right after \<open>detect\<close>; it
    reads what that call left behind, so it is a function of the arguments of that call.
  The history is looked up by the product's id.
\<close>

record validated_product =
  vp_id :: nat
  vp_price :: real

record outlier =
  product_id :: nat
  current_price :: real
  expected_range :: "real \<times> real"
  confidence :: real

text \<open>The loop body: what one product appends to \<open>outliers\<close>.\<close>

definition outlier_step ::
  "(nat \<Rightarrow> real list) \<Rightarrow> (real \<Rightarrow> real list \<Rightarrow> bool) \<Rightarrow> (real list \<Rightarrow> real \<times> real) \<Rightarrow>
   (real \<Rightarrow> real list \<Rightarrow> real) \<Rightarrow> outlier list \<Rightarrow> validated_product \<Rightarrow> outlier list" where
  "outlier_step get_prices detect get_expected_range get_confidence outliers product =
     (let historical_prices = get_prices (vp_id product) in
      if length historical_prices > 10 then
        (if detect (vp_price product) historical_prices then
           outliers @ [\<lparr>product_id = vp_id product,
                        current_price = vp_price product,
                        expected_range = get_expected_range historical_prices,
                        confidence = get_confidence (vp_price product) historical_prices\<rparr>]
         else outliers)
      else outliers)"

fun detect_outliers_loop ::
  "(nat \<Rightarrow> real list) \<Rightarrow> (real \<Rightarrow> real list \<Rightarrow> bool) \<Rightarrow> (real list \<Rightarrow> real \<times> real) \<Rightarrow>
   (real \<Rightarrow> real list \<Rightarrow> real) \<Rightarrow> outlier list \<Rightarrow> validated_product list \<Rightarrow> outlier list" where
  "detect_outliers_loop gp det rng conf outliers [] = outliers"
| "detect_outliers_loop gp det rng conf outliers (product # rest) =
     detect_outliers_loop gp det rng conf (outlier_step gp det rng conf outliers product) rest"

definition detect_outliers ::
  "(nat \<Rightarrow> real list) \<Rightarrow> (real \<Rightarrow> real list \<Rightarrow> bool) \<Rightarrow> (real list \<Rightarrow> real \<times> real) \<Rightarrow>
   (real \<Rightarrow> real list \<Rightarrow> real) \<Rightarrow> validated_product list \<Rightarrow> outlier list" where
  "detect_outliers gp det rng conf validated_products =
     detect_outliers_loop gp det rng conf [] validated_products"

text \<open>Whether the product at hand ends up flagged: its id is among the reported outliers.\<close>

definition flagged :: "outlier list \<Rightarrow> validated_product \<Rightarrow> bool" where
  "flagged outliers product = (vp_id product \<in> product_id ` set outliers)"

text \<open>Concrete collaborators used to run the code on examples.\<close>

definition ten_prices :: "nat \<Rightarrow> real list" where
  "ten_prices i = replicate 10 17"

definition eleven_prices :: "nat \<Rightarrow> real list" where
  "eleven_prices i = replicate 11 17"

definition beyond_double :: "real \<Rightarrow> real list \<Rightarrow> bool" where
  "beyond_double p h = list_all (\<lambda>x. 2 * x < p) h"

definition min_max_range :: "real list \<Rightarrow> real \<times> real" where
  "min_max_range h = (fold min h (hd h), fold max h (hd h))"

definition full_confidence :: "real \<Rightarrow> real list \<Rightarrow> real" where
  "full_confidence p h = 1"

definition pricey :: validated_product where
  "pricey = \<lparr>vp_id = 7, vp_price = 40\<rparr>"

section \<open>Name normalization\<close>

text \<open>
  \<^verbatim>\<open>normalize_product_name\<close> (troubleshooting guide, "Data Quality Issues"). A Python string is
  modelled as a \<open>string\<close> whose characters are the code points below 256. The library
  calls the function makes are modelled first:
  \<^item> \<^verbatim>\<open>name.split()\<close> cuts at runs of whitespace and keeps no empty word,
  \<^item> \<^verbatim>\<open>' '.join(words)\<close>,
  \<^item> \<^verbatim>\<open>s.lower()\<close>, character by character,
  \<^item> \<^verbatim>\<open>re.sub(r'^(ah|jumbo|dirk)\s+', '', s)\<close>: anchored at the start of the string, so at most
    one match, which is one of the three words followed by a greedy run of whitespace.
\<close>

text \<open>The code points below 256 for which \<^verbatim>\<open>str.isspace\<close> holds; \<^verbatim>\<open>\s\<close> matches the same.\<close>

definition is_space :: "char \<Rightarrow> bool" where
  "is_space c = (c \<in> {CHR 0x09, CHR 0x0A, CHR 0x0B, CHR 0x0C, CHR 0x0D, CHR 0x1C, CHR 0x1D, CHR 0x1E,
                       CHR 0x1F, CHR 0x20, CHR 0x85, CHR 0xA0})"

text \<open>\<open>w\<close> is the word being read; it is closed by whitespace or by the end of the string.\<close>

fun py_split_from :: "string \<Rightarrow> string \<Rightarrow> string list" where
  "py_split_from w [] = (if w = [] then [] else [w])"
| "py_split_from w (c # cs) =
     (if is_space c then (if w = [] then py_split_from [] cs else w # py_split_from [] cs)
      else py_split_from (w @ [c]) cs)"

definition py_split :: "string \<Rightarrow> string list" where
  "py_split s = py_split_from [] s"

fun py_join :: "string \<Rightarrow> string list \<Rightarrow> string" where
  "py_join sep [] = []"
| "py_join sep [w] = w"
| "py_join sep (w # v # ws) = w @ sep @ py_join sep (v # ws)"

text \<open>Upper-case letters below 256: A to Z, and the Latin-1 capitals except the times sign.\<close>

definition lower_char :: "char \<Rightarrow> char" where
  "lower_char c =
     (let n = (of_char c :: nat) in
      if (65 \<le> n \<and> n \<le> 90) \<or> (192 \<le> n \<and> n \<le> 222 \<and> n \<noteq> 215) then char_of (n + 32) else c)"

definition py_lower :: "string \<Rightarrow> string" where
  "py_lower s = map lower_char s"

text \<open>One alternative of the pattern at the start of \<open>s\<close>: the word \<open>p\<close>, then \<^verbatim>\<open>\s+\<close>.\<close>

definition match_prefix_ws :: "string \<Rightarrow> string \<Rightarrow> string option" where
  "match_prefix_ws p s =
     (if take (length p) s = p \<and>
         (case drop (length p) s of [] \<Rightarrow> False | c # cs \<Rightarrow> is_space c)
      then Some (dropWhile is_space (drop (length p) s)) else None)"

definition re_sub_store_prefix :: "string \<Rightarrow> string" where
  "re_sub_store_prefix s =
     (case match_prefix_ws ''ah'' s of Some r \<Rightarrow> r
      | None \<Rightarrow>
     (case match_prefix_ws ''jumbo'' s of Some r \<Rightarrow> r
      | None \<Rightarrow>
     (case match_prefix_ws ''dirk'' s of Some r \<Rightarrow> r
      | None \<Rightarrow> s)))"

definition normalize_product_name :: "string \<Rightarrow> string" where
  "normalize_product_name name =
     (let normalized = py_lower (py_join '' '' (py_split name)) in
      re_sub_store_prefix normalized)"

text \<open>
  \<^verbatim>\<open>ProductStandardizationAgent.normalize_names\<close> (docs/ARCHITECTURE.md): every product of the
  batch gets its \<open>normalized_name\<close> and its \<open>name_tokens\<close>. The class behind
  \<open>self.name_normalizer\<close> is not in the repository; its two methods are parameters.
\<close>

record raw_product =
  rp_id :: nat
  rp_name :: string

record processed_product =
  pp_id :: nat
  pp_name :: string
  normalized_name :: string
  name_tokens :: "string list"

fun normalize_names_loop ::
  "(string \<Rightarrow> string) \<Rightarrow> (string \<Rightarrow> string list) \<Rightarrow> processed_product list \<Rightarrow>
   raw_product list \<Rightarrow> processed_product list" where
  "normalize_names_loop name_normalize name_tokenize normalized_products [] = normalized_products"
| "normalize_names_loop name_normalize name_tokenize normalized_products (product # rest) =
     (let normalized_name = name_normalize (rp_name product) in
      normalize_names_loop name_normalize name_tokenize
        (normalized_products @
           [\<lparr>pp_id = rp_id product, pp_name = rp_name product,
             normalized_name = normalized_name, name_tokens = name_tokenize normalized_name\<rparr>])
        rest)"

definition normalize_names ::
  "(string \<Rightarrow> string) \<Rightarrow> (string \<Rightarrow> string list) \<Rightarrow> raw_product list \<Rightarrow> processed_product list" where
  "normalize_names name_normalize name_tokenize raw_products =
     normalize_names_loop name_normalize name_tokenize [] raw_products"

text \<open>
  What "whitespace collapsed" says of a string: its only whitespace is the space, it neither
  starts nor ends with one, and no two spaces are adjacent.
\<close>

definition collapsed :: "string \<Rightarrow> bool" where
  "collapsed s \<longleftrightarrow>
     (\<forall>c \<in> set s. is_space c \<longrightarrow> c = CHR '' '') \<and>
     (s \<noteq> [] \<longrightarrow> hd s \<noteq> CHR '' '' \<and> last s \<noteq> CHR '' '') \<and>
     (\<forall>i. Suc i < length s \<longrightarrow> \<not> (s ! i = CHR '' '' \<and> s ! Suc i = CHR '' ''))"

section \<open>Product standardization: duplicate detection\<close>

text \<open>
  \<^verbatim>\<open>ProductStandardizationAgent.detect_duplicates\<close> (docs/ARCHITECTURE.md). It runs on the
  processed products that \<open>normalize_names\<close> leaves in the state. \<open>calculate_similarity\<close> and
  \<open>determine_merge_strategy\<close> have no body in the repository and are parameters.
\<close>

record 'm duplicate =
  product1_id :: nat
  product2_id :: nat
  similarity :: real
  merge_strategy :: 'm

text \<open>
  The state of the two nested loops: the \<open>duplicates\<close> list of the source, and beside it a
  log of the index pairs \<open>(i, j)\<close> for which \<open>calculate_similarity\<close> has been called. The log
  is not in the source; it records the calls so that statements about which pairs are scored
  can be made. It never influences \<open>duplicates\<close>.
\<close>

type_synonym 'm dd_state = "'m duplicate list \<times> (nat \<times> nat) list"

text \<open>The inner loop \<^verbatim>\<open>for j, product2 in enumerate(products[i+1:], i+1)\<close>.\<close>

fun dd_inner ::
  "(processed_product \<Rightarrow> processed_product \<Rightarrow> real) \<Rightarrow>
   (processed_product \<Rightarrow> processed_product \<Rightarrow> 'm) \<Rightarrow>
   nat \<Rightarrow> processed_product \<Rightarrow> nat \<Rightarrow> processed_product list \<Rightarrow> 'm dd_state \<Rightarrow> 'm dd_state" where
  "dd_inner calculate_similarity determine_merge_strategy i product1 j [] st = st"
| "dd_inner calculate_similarity determine_merge_strategy i product1 j (product2 # rest) (duplicates, scored) =
     dd_inner calculate_similarity determine_merge_strategy i product1 (Suc j) rest
       (if calculate_similarity product1 product2 > 85 / 100 then
          duplicates @ [\<lparr>product1_id = pp_id product1,
                          product2_id = pp_id product2,
                          similarity = calculate_similarity product1 product2,
                          merge_strategy = determine_merge_strategy product1 product2\<rparr>]
        else duplicates,
        scored @ [(i, j)])"

text \<open>The outer loop \<^verbatim>\<open>for i, product1 in enumerate(products)\<close>; \<open>rest\<close> is \<^verbatim>\<open>products[i+1:]\<close>.\<close>

fun dd_outer ::
  "(processed_product \<Rightarrow> processed_product \<Rightarrow> real) \<Rightarrow>
   (processed_product \<Rightarrow> processed_product \<Rightarrow> 'm) \<Rightarrow>
   nat \<Rightarrow> processed_product list \<Rightarrow> 'm dd_state \<Rightarrow> 'm dd_state" where
  "dd_outer calculate_similarity determine_merge_strategy i [] st = st"
| "dd_outer calculate_similarity determine_merge_strategy i (product1 # rest) st =
     dd_outer calculate_similarity determine_merge_strategy (Suc i) rest
       (dd_inner calculate_similarity determine_merge_strategy i product1 (Suc i) rest st)"

definition detect_duplicates_run ::
  "(processed_product \<Rightarrow> processed_product \<Rightarrow> real) \<Rightarrow>
   (processed_product \<Rightarrow> processed_product \<Rightarrow> 'm) \<Rightarrow> processed_product list \<Rightarrow> 'm dd_state" where
  "detect_duplicates_run calculate_similarity determine_merge_strategy products =
     dd_outer calculate_similarity determine_merge_strategy 0 products ([], [])"

definition detect_duplicates ::
  "(processed_product \<Rightarrow> processed_product \<Rightarrow> real) \<Rightarrow>
   (processed_product \<Rightarrow> processed_product \<Rightarrow> 'm) \<Rightarrow> processed_product list \<Rightarrow> 'm duplicate list" where
  "detect_duplicates calculate_similarity determine_merge_strategy products =
     fst (detect_duplicates_run calculate_similarity determine_merge_strategy products)"

definition scored_pairs ::
  "(processed_product \<Rightarrow> processed_product \<Rightarrow> real) \<Rightarrow>
   (processed_product \<Rightarrow> processed_product \<Rightarrow> 'm) \<Rightarrow> processed_product list \<Rightarrow> (nat \<times> nat) list" where
  "scored_pairs calculate_similarity determine_merge_strategy products =
     snd (detect_duplicates_run calculate_similarity determine_merge_strategy products)"

text \<open>
  The record appended for a pair; the index pairs \<open>(a, b)\<close> with \<open>i \<le> a < b < n\<close> in the order
  the loops visit them; the pairs of a batch in that order.
\<close>

definition mk_duplicate ::
  "(processed_product \<Rightarrow> processed_product \<Rightarrow> real) \<Rightarrow>
   (processed_product \<Rightarrow> processed_product \<Rightarrow> 'm) \<Rightarrow> processed_product \<Rightarrow> processed_product \<Rightarrow> 'm duplicate" where
  "mk_duplicate sim ms p q =
     \<lparr>product1_id = pp_id p, product2_id = pp_id q, similarity = sim p q, merge_strategy = ms p q\<rparr>"

definition index_pairs :: "nat \<Rightarrow> nat \<Rightarrow> (nat \<times> nat) list" where
  "index_pairs i n = concat (map (\<lambda>a. map (Pair a) [Suc a ..< n]) [i ..< n])"

fun batch_pairs :: "'a list \<Rightarrow> ('a \<times> 'a) list" where
  "batch_pairs [] = []"
| "batch_pairs (p # rest) = map (Pair p) rest @ batch_pairs rest"

definition id_pair :: "'m duplicate \<Rightarrow> nat \<times> nat" where
  "id_pair d = (product1_id d, product2_id d)"

text \<open>Concrete collaborators and a two-product batch used to run the code on examples.\<close>

definition score_085 :: "processed_product \<Rightarrow> processed_product \<Rightarrow> real" where
  "score_085 p q = 85 / 100"

definition score_086 :: "processed_product \<Rightarrow> processed_product \<Rightarrow> real" where
  "score_086 p q = 86 / 100"

definition keep_first :: "processed_product \<Rightarrow> processed_product \<Rightarrow> string" where
  "keep_first p q = ''keep_first''"

definition formula_a :: processed_product where
  "formula_a = \<lparr>pp_id = 1, pp_name = ''Nutrilon Baby Formula'', normalized_name = ''nutrilon baby formula'',
                 name_tokens = [''nutrilon'', ''baby'', ''formula'']\<rparr>"

definition formula_b :: processed_product where
  "formula_b = \<lparr>pp_id = 2, pp_name = ''nutrilon baby formula 800g'', normalized_name = ''nutrilon baby formula 800g'',
                 name_tokens = [''nutrilon'', ''baby'', ''formula'', ''800g'']\<rparr>"

section \<open>Error recovery: classification\<close>

text \<open>
  \<^verbatim>\<open>ErrorRecoveryAgent.classify_error\<close> (docs/ARCHITECTURE.md). The error object is read through
  \<^verbatim>\<open>str(error)\<close> only. A failure is modelled with the structured fields an adapter may attach
  (a status code, an exception category) and with its text, which is what \<^verbatim>\<open>str\<close> returns.
\<close>

record failure =
  status_code :: "nat option"
  exception_category :: string
  failure_text :: string

definition str_of :: "failure \<Rightarrow> string" where
  "str_of error = failure_text error"

datatype error_type = network_error | rate_limit | parsing_error | database_error | unknown

text \<open>Python's \<^verbatim>\<open>sub in s\<close> on strings: \<open>sub\<close> occurs in \<open>s\<close> as a contiguous run.\<close>

fun starts_with :: "string \<Rightarrow> string \<Rightarrow> bool" where
  "starts_with [] s = True"
| "starts_with (a # sub) [] = False"
| "starts_with (a # sub) (b # s) = (a = b \<and> starts_with sub s)"

fun py_in :: "string \<Rightarrow> string \<Rightarrow> bool" where
  "py_in sub [] = (sub = [])"
| "py_in sub (c # cs) = (starts_with sub (c # cs) \<or> py_in sub cs)"

record error_state =
  es_error :: failure
  es_error_type :: "error_type option"

definition classify_error :: "error_state \<Rightarrow> error_state" where
  "classify_error state =
     (let error = es_error state in
      if py_in ''network'' (py_lower (str_of error)) \<or> py_in ''timeout'' (py_lower (str_of error)) then
        state\<lparr>es_error_type := Some network_error\<rparr>
      else if py_in ''rate limit'' (py_lower (str_of error)) \<or> py_in ''429'' (str_of error) then
        state\<lparr>es_error_type := Some rate_limit\<rparr>
      else if py_in ''parsing'' (py_lower (str_of error)) \<or> py_in ''html'' (py_lower (str_of error)) then
        state\<lparr>es_error_type := Some parsing_error\<rparr>
      else if py_in ''database'' (py_lower (str_of error)) \<or> py_in ''connection'' (py_lower (str_of error)) then
        state\<lparr>es_error_type := Some database_error\<rparr>
      else
        state\<lparr>es_error_type := Some unknown\<rparr>)"

text \<open>The kind assigned to a failure: run \<open>classify_error\<close> on a state that holds it.\<close>

definition assigned_kind :: "failure \<Rightarrow> error_type option" where
  "assigned_kind error = es_error_type (classify_error \<lparr>es_error = error, es_error_type = None\<rparr>)"

text \<open>Failures used to run the classifier on examples.\<close>

definition unavailable_network :: failure where
  "unavailable_network = \<lparr>status_code = Some 503, exception_category = ''HTTPError'',
                           failure_text = ''Network unreachable''\<rparr>"

definition unavailable_database :: failure where
  "unavailable_database = \<lparr>status_code = Some 503, exception_category = ''HTTPError'',
                            failure_text = ''upstream database is down''\<rparr>"

definition too_many_requests :: failure where
  "too_many_requests = \<lparr>status_code = Some 429, exception_category = ''RateLimitError'',
                         failure_text = ''Too Many Requests''\<rparr>"

definition storage_timeout :: failure where
  "storage_timeout = \<lparr>status_code = None, exception_category = ''StorageError'',
                       failure_text = ''database connection timeout''\<rparr>"

definition limited_429 :: failure where
  "limited_429 = \<lparr>status_code = Some 429, exception_category = ''RateLimitError'',
                   failure_text = ''HTTP 429: slow down''\<rparr>"

definition markup_changed :: failure where
  "markup_changed = \<lparr>status_code = None, exception_category = ''AttributeError'',
                      failure_text = ''HTML structure changed''\<rparr>"

section \<open>Retry with backoff\<close>

text \<open>
  \<^verbatim>\<open>retry_with_backoff\<close> (troubleshooting guide, "Rate Limiting Issues"). The awaited \<open>func\<close> is
  called once per attempt, so it is modelled by the outcome of the call made in attempt \<open>k\<close>;
  \<open>jitter k\<close> is the draw of \<^verbatim>\<open>random.uniform(0, 1)\<close> in attempt \<open>k\<close>. The model returns what
  the function returns or raises, together with the list of the times slept.
\<close>

datatype ('a, 'e) outcome = Returned 'a | RateLimitError | OtherError 'e

datatype 'e retry_error = MaxRetriesExceeded | Raised 'e

text \<open>The loop \<^verbatim>\<open>for attempt in range(max_retries)\<close>; the list holds the attempts still to come.\<close>

fun retry_loop ::
  "(nat \<Rightarrow> ('a, 'e) outcome) \<Rightarrow> (nat \<Rightarrow> real) \<Rightarrow> nat list \<Rightarrow> real list \<Rightarrow>
   ('e retry_error + 'a) \<times> real list" where
  "retry_loop func jitter [] slept = (Inl MaxRetriesExceeded, slept)"
| "retry_loop func jitter (attempt # rest) slept =
     (case func attempt of
        Returned v \<Rightarrow> (Inr v, slept)
      | RateLimitError \<Rightarrow>
          (let wait_time = 2 ^ attempt + jitter attempt in
           retry_loop func jitter rest (slept @ [wait_time]))
      | OtherError e \<Rightarrow> (Inl (Raised e), slept))"

definition retry_with_backoff ::
  "(nat \<Rightarrow> ('a, 'e) outcome) \<Rightarrow> (nat \<Rightarrow> real) \<Rightarrow> int \<Rightarrow> ('e retry_error + 'a) \<times> real list" where
  "retry_with_backoff func jitter max_retries = retry_loop func jitter [0 ..< nat max_retries] []"

text \<open>Collaborators used to run the code on examples.\<close>

definition always_limited :: "nat \<Rightarrow> (nat, string) outcome" where
  "always_limited k = RateLimitError"

definition limited_once :: "nat \<Rightarrow> (nat, string) outcome" where
  "limited_once k = (if k = 0 then RateLimitError else Returned 200)"

definition no_jitter :: "nat \<Rightarrow> real" where
  "no_jitter k = 0"

section \<open>Job monitor: job actions\<close>

text \<open>
  \<^verbatim>\<open>handleJobAction\<close> of the job monitor component (frontend/components/ui/scroll-area.tsx),
  with the \<open>ScrapingJob\<close> interface and the action buttons the component renders.
\<close>

datatype job_type = full_scrape | price_update | validation

datatype job_status = pending | running | completed | failed | paused

datatype job_action = pause | resume | stop | retry

record scraping_job =
  sj_id :: string
  sj_store :: string
  sj_type :: job_type
  status :: job_status
  progress :: nat
  startTime :: string
  estimatedEnd :: "string option"
  productsProcessed :: nat
  productsTotal :: nat
  errorCount :: nat

text \<open>The \<^verbatim>\<open>switch (action)\<close> applied to the job whose id matches.\<close>

definition apply_action :: "job_action \<Rightarrow> scraping_job \<Rightarrow> scraping_job" where
  "apply_action action job =
     (case action of
        pause \<Rightarrow> job\<lparr>status := paused\<rparr>
      | resume \<Rightarrow> job\<lparr>status := running\<rparr>
      | stop \<Rightarrow> job\<lparr>status := failed\<rparr>
      | retry \<Rightarrow> job\<lparr>status := pending, progress := 0, productsProcessed := 0, errorCount := 0\<rparr>)"

text \<open>\<^verbatim>\<open>setJobs(prev => prev.map(...))\<close>: the new list of jobs.\<close>

definition handleJobAction :: "scraping_job list \<Rightarrow> string \<Rightarrow> job_action \<Rightarrow> scraping_job list" where
  "handleJobAction prev jobId action =
     map (\<lambda>job. if sj_id job = jobId then apply_action action job else job) prev"

text \<open>
  The buttons rendered for a job: pause and stop while it is running, resume while it is
  paused, retry once it has failed, none otherwise.
\<close>

fun offered :: "job_status \<Rightarrow> job_action list" where
  "offered running = [pause, stop]"
| "offered paused = [resume]"
| "offered failed = [retry]"
| "offered pending = []"
| "offered completed = []"

text \<open>
  The stage of a status along the lifecycle: pending (queued), then running or paused, then
  the terminal statuses completed and failed.
\<close>

fun stage :: "job_status \<Rightarrow> nat" where
  "stage pending = 1"
| "stage running = 2"
| "stage paused = 2"
| "stage completed = 3"
| "stage failed = 3"

definition terminal :: "job_status \<Rightarrow> bool" where
  "terminal s = (s = completed \<or> s = failed)"

text \<open>A failed job of the monitor, used to run the code on an example.\<close>

definition failed_job :: scraping_job where
  "failed_job = \<lparr>sj_id = ''job-1'', sj_store = ''Jumbo'', sj_type = price_update, status = failed,
                  progress = 40, startTime = ''2024-03-07T23:00:00Z'', estimatedEnd = None,
                  productsProcessed = 400, productsTotal = 1000, errorCount = 3\<rparr>"

definition running_job :: scraping_job where
  "running_job = \<lparr>sj_id = ''job-2'', sj_store = ''Dirk'', sj_type = full_scrape, status = running,
                   progress = 10, startTime = ''2024-03-07T23:05:00Z'', estimatedEnd = None,
                   productsProcessed = 100, productsTotal = 1000, errorCount = 0\<rparr>"

section \<open>Product validation and the price tables\<close>

text \<open>
  A number as Python holds it: a finite number, or one of the three floats that are not. A
  finite number stands for the decimal number its text denotes, which is what reaches the
  store.
\<close>

datatype py_float = Number real | NaN | PosInf | NegInf

text \<open>
  An entry of the product dictionary: the key may be missing, and a key that is there may hold
  \<open>None\<close>. \<^verbatim>\<open>d[key]\<close> raises \<open>KeyError\<close> for a missing key; \<^verbatim>\<open>d.get(key)\<close> gives \<open>None\<close> and
  \<^verbatim>\<open>d.get(key, default)\<close> gives the default for a missing key only.
\<close>

datatype 'a entry = NoKey | IsNone | Value 'a

datatype error =
  KeyError string
| TypeError
| InvalidNumber
| NotNullViolation
| NumericOverflow
| ForeignKeyViolation
| CardinalityViolation

definition item :: "string \<Rightarrow> 'a entry \<Rightarrow> error + 'a option" where
  "item key f = (case f of NoKey \<Rightarrow> Inl (KeyError key) | IsNone \<Rightarrow> Inr None | Value v \<Rightarrow> Inr (Some v))"

definition get :: "'a entry \<Rightarrow> 'a option" where
  "get f = (case f of NoKey \<Rightarrow> None | IsNone \<Rightarrow> None | Value v \<Rightarrow> Some v)"

definition get_or :: "'a entry \<Rightarrow> 'a \<Rightarrow> 'a option" where
  "get_or f dflt = (case f of NoKey \<Rightarrow> Some dflt | IsNone \<Rightarrow> None | Value v \<Rightarrow> Some v)"

text \<open>
  \<^verbatim>\<open>x <= 0\<close>: a comparison with \<open>None\<close> raises \<open>TypeError\<close>, a comparison with NaN is false.
\<close>

definition le_zero :: "py_float option \<Rightarrow> error + bool" where
  "le_zero x =
     (case x of
        None \<Rightarrow> Inl TypeError
      | Some (Number v) \<Rightarrow> Inr (v \<le> 0)
      | Some NaN \<Rightarrow> Inr False
      | Some PosInf \<Rightarrow> Inr False
      | Some NegInf \<Rightarrow> Inr True)"

text \<open>
  A scraped product as the validation and database code read it. The name, the category and
  the promotion text are read with \<^verbatim>\<open>get\<close> and tested for truth or passed on, so a missing key
  and \<open>None\<close> are the same \<open>None\<close> here.
\<close>

record product =
  p_id :: nat
  p_store_product_id :: nat
  p_name :: "string option"
  p_price :: "py_float entry"
  p_category :: "string option"
  p_original_price :: "py_float entry"
  p_discount_percentage :: "py_float entry"
  p_is_promotion :: "bool entry"
  p_promotion_text :: "string option"
  p_scraped_at :: nat

text \<open>
  \<^verbatim>\<open>validate_product_data\<close> (troubleshooting guide, "Data Quality Issues"). \<^verbatim>\<open>not product.get('name')\<close>
  holds for a missing and for an empty name; \<^verbatim>\<open>product.get('price', 0)\<close> reads a missing
  price as 0. The function returns its list of errors, or raises.
\<close>

definition validate_product_data :: "product \<Rightarrow> error + string list" where
  "validate_product_data product =
     (let errors = [];
          errors = (if (case p_name product of None \<Rightarrow> True | Some n \<Rightarrow> n = [] \<or> length n < 3)
                    then errors @ [''Product name too short''] else errors)
      in case le_zero (get_or (p_price product) (Number 0)) of
           Inl e \<Rightarrow> Inl e
         | Inr non_positive \<Rightarrow>
             (let errors = (if non_positive then errors @ [''Invalid price''] else errors);
                  errors = (if (case p_category product of None \<Rightarrow> True | Some c \<Rightarrow> c = [])
                            then errors @ [''Missing category''] else errors)
              in Inr errors))"

text \<open>
  The dictionaries \<open>update_prices\<close> builds for a product: one for \<open>current_prices\<close> and one for
  \<open>price_history\<close>. \<open>sent_time\<close> is \<open>last_updated\<close> in the first and \<open>scraped_at\<close> in the second.
\<close>

record sent_row =
  sent_store_product_id :: nat
  sent_price :: "py_float option"
  sent_original_price :: "py_float option"
  sent_discount_percentage :: "py_float option"
  sent_is_promotion :: "bool option"
  sent_promotion_text :: "string option"
  sent_time :: nat

definition current_price_row :: "nat \<Rightarrow> product \<Rightarrow> py_float option \<Rightarrow> sent_row" where
  "current_price_row now product price =
     \<lparr>sent_store_product_id = p_store_product_id product,
      sent_price = price,
      sent_original_price = get (p_original_price product),
      sent_discount_percentage = get (p_discount_percentage product),
      sent_is_promotion = get_or (p_is_promotion product) False,
      sent_promotion_text = p_promotion_text product,
      sent_time = now\<rparr>"

definition price_history_row :: "product \<Rightarrow> py_float option \<Rightarrow> sent_row" where
  "price_history_row product price =
     \<lparr>sent_store_product_id = p_store_product_id product,
      sent_price = price,
      sent_original_price = get (p_original_price product),
      sent_discount_percentage = get (p_discount_percentage product),
      sent_is_promotion = get_or (p_is_promotion product) False,
      sent_promotion_text = p_promotion_text product,
      sent_time = p_scraped_at product\<rparr>"

text \<open>
  The loop that fills the lists \<open>current_prices\<close> and \<open>price_history\<close> of the function.
  \<^verbatim>\<open>datetime.now()\<close> is read once for every product: \<open>now k\<close> is the reading for the product at
  position \<open>k\<close> of the batch.
\<close>

fun build_rows ::
  "(nat \<Rightarrow> nat) \<Rightarrow> sent_row list \<Rightarrow> sent_row list \<Rightarrow> product list \<Rightarrow>
   error + sent_row list \<times> sent_row list" where
  "build_rows now cur hist [] = Inr (cur, hist)"
| "build_rows now cur hist (product # rest) =
     (case item ''price'' (p_price product) of
        Inl e \<Rightarrow> Inl e
      | Inr price \<Rightarrow>
          build_rows now
            (cur @ [current_price_row (now (length cur)) product price])
            (hist @ [price_history_row product price])
            rest)"

text \<open>
  The tables \<open>current_prices\<close> and \<open>price_history\<close> (initial schema migration). A row holds the
  columns the code writes; \<open>row_time\<close> is \<open>last_updated\<close> or \<open>scraped_at\<close>. The columns \<open>id\<close> and
  \<open>created_at\<close> are filled in by the database and are left out. A table is the list of its
  rows. Of the table \<open>store_products\<close>, which \<open>store_product_id\<close> references, the ids are kept.
  \<open>current_prices\<close> is declared \<^verbatim>\<open>UNIQUE(store_product_id)\<close>; \<open>price_history\<close> has no key but its
  generated \<open>id\<close>.
\<close>

record price_row =
  row_store_product_id :: nat
  row_price :: real
  row_original_price :: "real option"
  row_discount_percentage :: "real option"
  row_is_promotion :: "bool option"
  row_promotion_text :: "string option"
  row_time :: nat

record catalog =
  store_products :: "nat list"
  current_prices :: "price_row list"
  price_history :: "price_row list"

text \<open>
  A column \<^verbatim>\<open>DECIMAL(p, 2)\<close> rounds a number to two decimals, a tie away from zero, and refuses
  a number whose rounded value has more than \<open>p - 2\<close> digits before the point. A float that is
  not a finite number cannot be sent to the store.
\<close>

definition decimal2 :: "real \<Rightarrow> real" where
  "decimal2 v =
     (if 0 \<le> v then of_int \<lfloor>v * 100 + 1 / 2\<rfloor> / 100 else - (of_int \<lfloor>- v * 100 + 1 / 2\<rfloor> / 100))"

definition numeric :: "nat \<Rightarrow> py_float \<Rightarrow> error + real" where
  "numeric digits x =
     (case x of
        Number v \<Rightarrow> (if \<bar>decimal2 v\<bar> < 10 ^ digits then Inr (decimal2 v) else Inl NumericOverflow)
      | NaN \<Rightarrow> Inl InvalidNumber
      | PosInf \<Rightarrow> Inl InvalidNumber
      | NegInf \<Rightarrow> Inl InvalidNumber)"

definition numeric_or_null :: "nat \<Rightarrow> py_float option \<Rightarrow> error + real option" where
  "numeric_or_null digits x =
     (case x of
        None \<Rightarrow> Inr None
      | Some y \<Rightarrow> (case numeric digits y of Inl e \<Rightarrow> Inl e | Inr v \<Rightarrow> Inr (Some v)))"

text \<open>
  The row the store holds for a dictionary, or the reason it refuses it: \<open>store_product_id\<close>
  references \<open>store_products\<close>, \<open>price\<close> is \<^verbatim>\<open>DECIMAL(10,2) NOT NULL\<close>, \<open>original_price\<close> is
  \<^verbatim>\<open>DECIMAL(10,2)\<close> and \<open>discount_percentage\<close> is \<^verbatim>\<open>DECIMAL(5,2)\<close>.
\<close>

definition store_row :: "nat list \<Rightarrow> sent_row \<Rightarrow> error + price_row" where
  "store_row ids r =
     (if sent_store_product_id r \<notin> set ids then Inl ForeignKeyViolation
      else case sent_price r of
        None \<Rightarrow> Inl NotNullViolation
      | Some x \<Rightarrow>
     (case numeric 8 x of
        Inl e \<Rightarrow> Inl e
      | Inr price \<Rightarrow>
     (case numeric_or_null 8 (sent_original_price r) of
        Inl e \<Rightarrow> Inl e
      | Inr original \<Rightarrow>
     (case numeric_or_null 3 (sent_discount_percentage r) of
        Inl e \<Rightarrow> Inl e
      | Inr discount \<Rightarrow>
          Inr \<lparr>row_store_product_id = sent_store_product_id r,
               row_price = price,
               row_original_price = original,
               row_discount_percentage = discount,
               row_is_promotion = sent_is_promotion r,
               row_promotion_text = sent_promotion_text r,
               row_time = sent_time r\<rparr>))))"

text \<open>A statement is refused as a whole when the store refuses one of its rows.\<close>

fun store_rows :: "nat list \<Rightarrow> sent_row list \<Rightarrow> error + price_row list" where
  "store_rows ids [] = Inr []"
| "store_rows ids (r # rs) =
     (case store_row ids r of
        Inl e \<Rightarrow> Inl e
      | Inr x \<Rightarrow> (case store_rows ids rs of Inl e \<Rightarrow> Inl e | Inr xs \<Rightarrow> Inr (x # xs)))"

text \<open>
  \<^verbatim>\<open>upsert(rows, on_conflict="store_product_id")\<close>: a row whose key is in the table replaces
  the row of that key, any other row is added. The database refuses a statement that would
  touch one row twice, so rows with a repeated key in one call are an error and nothing is
  written. \<^verbatim>\<open>insert(rows)\<close> adds the rows.
\<close>

fun upsert_row :: "price_row \<Rightarrow> price_row list \<Rightarrow> price_row list" where
  "upsert_row r [] = [r]"
| "upsert_row r (x # xs) =
     (if row_store_product_id x = row_store_product_id r then r # xs else x # upsert_row r xs)"

definition upsert :: "nat list \<Rightarrow> sent_row list \<Rightarrow> price_row list \<Rightarrow> error + price_row list" where
  "upsert ids rows table =
     (case store_rows ids rows of
        Inl e \<Rightarrow> Inl e
      | Inr rs \<Rightarrow>
          if distinct (map row_store_product_id rs) then Inr (fold upsert_row rs table)
          else Inl CardinalityViolation)"

definition insert_rows :: "nat list \<Rightarrow> sent_row list \<Rightarrow> price_row list \<Rightarrow> error + price_row list" where
  "insert_rows ids rows table =
     (case store_rows ids rows of Inl e \<Rightarrow> Inl e | Inr rs \<Rightarrow> Inr (table @ rs))"

record database_state =
  validated_products :: "product list"
  prices_updated :: "nat option"
  database_errors :: "error list"

text \<open>
  \<^verbatim>\<open>DatabaseOperationsAgent.update_prices\<close> (docs/ARCHITECTURE.md), on the state and the
  tables. An exception raised inside \<^verbatim>\<open>try\<close> is appended to \<open>database_errors\<close>. The upsert and
  the insert are two statements: were the insert refused, the upsert would stay.
\<close>

definition update_prices ::
  "(nat \<Rightarrow> nat) \<Rightarrow> database_state \<times> catalog \<Rightarrow> database_state \<times> catalog" where
  "update_prices now sc =
     (let state = fst sc; store = snd sc in
      case build_rows now [] [] (validated_products state) of
        Inl e \<Rightarrow> (state\<lparr>database_errors := database_errors state @ [e]\<rparr>, store)
      | Inr (cur, hist) \<Rightarrow>
          (case upsert (store_products store) cur (current_prices store) of
             Inl e \<Rightarrow> (state\<lparr>database_errors := database_errors state @ [e]\<rparr>, store)
           | Inr table \<Rightarrow>
               (case insert_rows (store_products store) hist (price_history store) of
                  Inl e \<Rightarrow>
                    (state\<lparr>database_errors := database_errors state @ [e]\<rparr>,
                     store\<lparr>current_prices := table\<rparr>)
                | Inr history \<Rightarrow>
                    (state\<lparr>prices_updated := Some (length cur)\<rparr>,
                     store\<lparr>current_prices := table, price_history := history\<rparr>))))"

text \<open>
  The rows the store holds for a product whose price is the finite number \<open>v\<close>, written at
  clock reading \<open>t\<close>; and whether the store takes the rows of a product.
\<close>

definition latest_row :: "nat list \<Rightarrow> nat \<Rightarrow> product \<Rightarrow> error + price_row" where
  "latest_row ids t product =
     (case item ''price'' (p_price product) of
        Inl e \<Rightarrow> Inl e
      | Inr price \<Rightarrow> store_row ids (current_price_row t product price))"

definition history_row :: "nat list \<Rightarrow> product \<Rightarrow> error + price_row" where
  "history_row ids product =
     (case item ''price'' (p_price product) of
        Inl e \<Rightarrow> Inl e
      | Inr price \<Rightarrow> store_row ids (price_history_row product price))"

definition storable :: "nat list \<Rightarrow> product \<Rightarrow> bool" where
  "storable ids product = (case history_row ids product of Inl e \<Rightarrow> False | Inr r \<Rightarrow> True)"

text \<open>Products, clocks and tables used to run the code on examples.\<close>

definition milk :: product where
  "milk = \<lparr>p_id = 1, p_store_product_id = 11, p_name = Some ''halfvolle melk'',
           p_price = Value (Number (129 / 100)), p_category = Some ''dairy-eggs'',
           p_original_price = NoKey, p_discount_percentage = NoKey,
           p_is_promotion = NoKey, p_promotion_text = None, p_scraped_at = 1000\<rparr>"

definition sample :: product where
  "sample = \<lparr>p_id = 2, p_store_product_id = 12, p_name = Some ''proefmonster'',
           p_price = Value (Number (4 / 1000)), p_category = Some ''pantry'',
           p_original_price = NoKey, p_discount_percentage = NoKey,
           p_is_promotion = NoKey, p_promotion_text = None, p_scraped_at = 1000\<rparr>"

definition free_bread :: product where
  "free_bread = milk\<lparr>p_id := 3, p_store_product_id := 13, p_name := Some ''volkoren brood'',
                     p_price := Value (Number 0)\<rparr>"

definition unpriced :: product where
  "unpriced = milk\<lparr>p_id := 4, p_store_product_id := 14, p_price := IsNone\<rparr>"

definition nan_priced :: product where
  "nan_priced = milk\<lparr>p_id := 5, p_store_product_id := 15, p_price := Value NaN\<rparr>"

definition gold :: product where
  "gold = milk\<lparr>p_id := 6, p_store_product_id := 16, p_price := Value (Number 100000000)\<rparr>"

definition at_2000 :: "nat \<Rightarrow> nat" where
  "at_2000 k = 2000 + k"

definition at_3000 :: "nat \<Rightarrow> nat" where
  "at_3000 k = 3000 + k"

definition empty_catalog :: catalog where
  "empty_catalog = \<lparr>store_products = [11, 12, 13, 14, 15, 16], current_prices = [], price_history = []\<rparr>"

definition state_of_batch :: "product list \<Rightarrow> database_state" where
  "state_of_batch ps = \<lparr>validated_products = ps, prices_updated = None, database_errors = []\<rparr>"

section \<open>Job orchestrator: starting jobs\<close>















chapter \<open>Properties\<close>

section \<open>Properties of outlier detection\<close>

lemma detect_outliers_loop_filter:
  "detect_outliers_loop gp det rng conf acc ps =
     acc @ map (\<lambda>p. \<lparr>product_id = vp_id p, current_price = vp_price p,
                      expected_range = rng (gp (vp_id p)),
                      confidence = conf (vp_price p) (gp (vp_id p))\<rparr>)
               (filter (\<lambda>p. 10 < length (gp (vp_id p)) \<and> det (vp_price p) (gp (vp_id p))) ps)"
  by (induction ps arbitrary: acc) (simp_all add: outlier_step_def Let_def)

text \<open>
  With exactly ten prior prices and a price more than twice every one of them, the range
  check is not performed and the product is not flagged.
\<close>

theorem ten_points_never_flag:
  "length (ten_prices (vp_id pricey)) = 10 \<and>
   beyond_double (vp_price pricey) (ten_prices (vp_id pricey)) \<and>
   \<not> flagged (detect_outliers ten_prices beyond_double min_max_range full_confidence [pricey]) pricey"
  by (simp add: detect_outliers_def outlier_step_def flagged_def ten_prices_def
      beyond_double_def pricey_def list_all_iff)

lemma flagged_iff:
  "flagged (detect_outliers gp det rng conf ps) p \<longleftrightarrow>
     (\<exists>q \<in> set ps. vp_id q = vp_id p \<and> 10 < length (gp (vp_id p)) \<and> det (vp_price q) (gp (vp_id p)))"
proof
  assume "flagged (detect_outliers gp det rng conf ps) p"
  then obtain q where "q \<in> set ps" "10 < length (gp (vp_id q))" "det (vp_price q) (gp (vp_id q))"
    "vp_id p = vp_id q"
    by (auto simp: flagged_def detect_outliers_def detect_outliers_loop_filter)
  then show "\<exists>q \<in> set ps. vp_id q = vp_id p \<and> 10 < length (gp (vp_id p)) \<and> det (vp_price q) (gp (vp_id p))"
    by auto
next
  assume "\<exists>q \<in> set ps. vp_id q = vp_id p \<and> 10 < length (gp (vp_id p)) \<and> det (vp_price q) (gp (vp_id p))"
  then obtain q where q: "q \<in> set ps" "vp_id q = vp_id p" "10 < length (gp (vp_id q))"
    "det (vp_price q) (gp (vp_id q))" by auto
  let ?mk = "\<lambda>p. \<lparr>product_id = vp_id p, current_price = vp_price p,
                  expected_range = rng (gp (vp_id p)), confidence = conf (vp_price p) (gp (vp_id p))\<rparr>"
  have "?mk q \<in> set (detect_outliers gp det rng conf ps)"
    using q(1,3,4) by (simp add: detect_outliers_def detect_outliers_loop_filter)
  then have "product_id (?mk q) \<in> product_id ` set (detect_outliers gp det rng conf ps)"
    by (rule imageI)
  then show "flagged (detect_outliers gp det rng conf ps) p"
    using q(2) by (simp add: flagged_def)
qed

text \<open>
  Claim C5, as the code has it: the guard is \<^verbatim>\<open>len(historical_prices) > 10\<close>. A product is
  flagged only if more than 10 prior history points exist for its id and the detector reports
  a product of that id against them; with 10 or fewer prior points no product is flagged,
  whatever its price; with 11 or more, a product the detector reports is flagged.
\<close>

theorem outlier_needs_more_than_ten_points:
  "(flagged (detect_outliers gp det rng conf ps) p \<longrightarrow>
      (\<exists>q \<in> set ps. vp_id q = vp_id p \<and> 10 < length (gp (vp_id p)) \<and> det (vp_price q) (gp (vp_id p)))) \<and>
   (length (gp (vp_id p)) \<le> 10 \<longrightarrow> \<not> flagged (detect_outliers gp det rng conf ps) p) \<and>
   (p \<in> set ps \<and> 10 < length (gp (vp_id p)) \<and> det (vp_price p) (gp (vp_id p)) \<longrightarrow>
      flagged (detect_outliers gp det rng conf ps) p)"
proof (intro conjI impI)
  assume "flagged (detect_outliers gp det rng conf ps) p"
  then show "\<exists>q \<in> set ps. vp_id q = vp_id p \<and> 10 < length (gp (vp_id p)) \<and> det (vp_price q) (gp (vp_id p))"
    by (simp only: flagged_iff)
next
  assume "length (gp (vp_id p)) \<le> 10"
  then show "\<not> flagged (detect_outliers gp det rng conf ps) p"
    unfolding flagged_iff by auto
next
  assume "p \<in> set ps \<and> 10 < length (gp (vp_id p)) \<and> det (vp_price p) (gp (vp_id p))"
  then show "flagged (detect_outliers gp det rng conf ps) p"
    unfolding flagged_iff by blast
qed

text \<open>
  The out-of-range product against eleven prior prices is flagged, against ten it is not.
\<close>

theorem outlier_needs_more_than_ten_points_witness:
  "pricey \<in> set [pricey] \<and> 10 < length (eleven_prices (vp_id pricey)) \<and>
   beyond_double (vp_price pricey) (eleven_prices (vp_id pricey)) \<and>
   flagged (detect_outliers eleven_prices beyond_double min_max_range full_confidence [pricey]) pricey \<and>
   length (ten_prices (vp_id pricey)) \<le> 10 \<and>
   \<not> flagged (detect_outliers ten_prices beyond_double min_max_range full_confidence [pricey]) pricey"
proof -
  have h1: "pricey \<in> set [pricey]" by simp
  have h2: "10 < length (eleven_prices (vp_id pricey))" by (simp add: eleven_prices_def)
  have h3: "beyond_double (vp_price pricey) (eleven_prices (vp_id pricey))"
    by (simp add: eleven_prices_def beyond_double_def pricey_def list_all_iff)
  have h4: "length (ten_prices (vp_id pricey)) \<le> 10" by (simp add: ten_prices_def)
  from outlier_needs_more_than_ten_points
         [of eleven_prices beyond_double min_max_range full_confidence "[pricey]" pricey] h1 h2 h3
  have c1: "flagged (detect_outliers eleven_prices beyond_double min_max_range full_confidence [pricey]) pricey"
    by blast
  from outlier_needs_more_than_ten_points
         [of ten_prices beyond_double min_max_range full_confidence "[pricey]" pricey] h4
  have c2: "\<not> flagged (detect_outliers ten_prices beyond_double min_max_range full_confidence [pricey]) pricey"
    by blast
  show ?thesis using h1 h2 h3 h4 c1 c2 by blast
qed

section \<open>Properties of name normalization\<close>

lemma char_eq_code: "c = d \<longleftrightarrow> (of_char c :: nat) = of_char d"
  by simp

lemma is_space_code:
  "is_space c \<longleftrightarrow> (of_char c :: nat) \<in> {9, 10, 11, 12, 13, 28, 29, 30, 31, 32, 133, 160}"
  unfolding is_space_def insert_iff empty_iff char_eq_code [of c] by simp

lemma space_code: "c = CHR '' '' \<longleftrightarrow> (of_char c :: nat) = 32"
  unfolding char_eq_code [of c] by simp

lemma of_char_lower:
  "(of_char (lower_char c) :: nat) =
     (if (65 \<le> (of_char c :: nat) \<and> (of_char c :: nat) \<le> 90) \<or>
         (192 \<le> (of_char c :: nat) \<and> (of_char c :: nat) \<le> 222 \<and> (of_char c :: nat) \<noteq> 215)
      then of_char c + 32 else of_char c)"
  by (simp add: lower_char_def Let_def)

lemma is_space_lower [simp]: "is_space (lower_char c) \<longleftrightarrow> is_space c"
  unfolding is_space_code of_char_lower by (simp split: if_splits)

lemma lower_is_space_char [simp]: "lower_char c = CHR '' '' \<longleftrightarrow> c = CHR '' ''"
  unfolding space_code of_char_lower by (simp split: if_splits)

lemma lower_char_idem [simp]: "lower_char (lower_char c) = lower_char c"
proof -
  have "(of_char (lower_char (lower_char c)) :: nat) = of_char (lower_char c)"
    unfolding of_char_lower [of "lower_char c"] unfolding of_char_lower [of c]
    by (simp split: if_splits)
  then show ?thesis by simp
qed

lemma py_split_from_words:
  "\<forall>c \<in> set w. \<not> is_space c \<Longrightarrow>
   \<forall>x \<in> set (py_split_from w s). x \<noteq> [] \<and> (\<forall>c \<in> set x. \<not> is_space c)"
proof (induction s arbitrary: w)
  case Nil
  then show ?case by simp
next
  case (Cons a s)
  have e: "\<forall>x \<in> set (py_split_from [] s). x \<noteq> [] \<and> (\<forall>c \<in> set x. \<not> is_space c)"
    by (rule Cons.IH) simp
  show ?case
  proof (cases "is_space a")
    case True
    then show ?thesis using e Cons.prems by simp
  next
    case False
    then have "\<forall>c \<in> set (w @ [a]). \<not> is_space c" using Cons.prems by simp
    from Cons.IH [OF this] show ?thesis using False by simp
  qed
qed

lemma py_split_words:
  "\<forall>x \<in> set (py_split s). x \<noteq> [] \<and> (\<forall>c \<in> set x. \<not> is_space c)"
  unfolding py_split_def by (rule py_split_from_words) simp

lemma collapsed_append:
  assumes a: "collapsed a" and b: "collapsed b" and na: "a \<noteq> []" and nb: "b \<noteq> []"
  shows "collapsed (a @ CHR '' '' # b)"
proof -
  have 1: "\<forall>c \<in> set (a @ CHR '' '' # b). is_space c \<longrightarrow> c = CHR '' ''"
    using a b by (auto simp: collapsed_def)
  have 2: "hd (a @ CHR '' '' # b) \<noteq> CHR '' '' \<and> last (a @ CHR '' '' # b) \<noteq> CHR '' ''"
    using a b na nb by (simp add: collapsed_def)
  have 3: "\<not> ((a @ CHR '' '' # b) ! i = CHR '' '' \<and> (a @ CHR '' '' # b) ! Suc i = CHR '' '')"
    if i: "Suc i < length (a @ CHR '' '' # b)" for i
  proof -
    consider "Suc i < length a" | "Suc i = length a" | "i = length a" | "length a < i"
      by linarith
    then show ?thesis
    proof cases
      case 1
      then show ?thesis using a by (simp add: nth_append collapsed_def)
    next
      case 2
      then have ii: "i = length a - 1" by simp
      have "(a @ CHR '' '' # b) ! i = last a"
        unfolding ii using na by (simp add: nth_append last_conv_nth)
      then show ?thesis using a na by (simp add: collapsed_def)
    next
      case 3
      then have "(a @ CHR '' '' # b) ! Suc i = hd b"
        using nb by (simp add: nth_append hd_conv_nth)
      then show ?thesis using b nb by (simp add: collapsed_def)
    next
      case 4
      then obtain k where k: "i = Suc (length a + k)"
        by (metis less_iff_Suc_add add_Suc_right)
      have "(a @ CHR '' '' # b) ! i = b ! k" "(a @ CHR '' '' # b) ! Suc i = b ! Suc k"
        by (simp_all add: k nth_append)
      moreover have "Suc k < length b" using i k by simp
      ultimately show ?thesis using b by (simp add: collapsed_def)
    qed
  qed
  show ?thesis unfolding collapsed_def using 1 2 3 by blast
qed

lemma collapsed_word:
  assumes "w \<noteq> []" "\<forall>c \<in> set w. \<not> is_space c"
  shows "collapsed w"
proof -
  have sp: "is_space CHR '' ''" by (simp add: is_space_def)
  have "c \<noteq> CHR '' ''" if "c \<in> set w" for c using that assms(2) sp by auto
  then show ?thesis
    unfolding collapsed_def using assms
    by (metis hd_in_set last_in_set nth_mem Suc_lessD)
qed

lemma collapsed_join:
  "\<forall>x \<in> set ws. x \<noteq> [] \<and> (\<forall>c \<in> set x. \<not> is_space c) \<Longrightarrow>
   collapsed (py_join '' '' ws) \<and> (ws \<noteq> [] \<longrightarrow> py_join '' '' ws \<noteq> [])"
proof (induction "'' ''" ws rule: py_join.induct)
  case 1
  show ?case by (simp add: collapsed_def)
next
  case (2 w)
  then show ?case by (simp add: collapsed_word)
next
  case (3 w v ws)
  then have "collapsed (py_join '' '' (v # ws))" "py_join '' '' (v # ws) \<noteq> []" by simp_all
  moreover have "collapsed w" "w \<noteq> []" using 3(2) by (simp_all add: collapsed_word)
  ultimately show ?case using collapsed_append [of w "py_join '' '' (v # ws)"] by simp
qed

lemma is_space_space: "is_space CHR '' ''"
  by (simp add: is_space_def)

lemma lower_char_space: "lower_char CHR '' '' = CHR '' ''"
  by simp

lemma collapsed_lower: "collapsed s \<Longrightarrow> collapsed (py_lower s)"
  unfolding collapsed_def py_lower_def
  by (auto simp: hd_map last_map lower_char_space)

lemma collapsed_suffix:
  assumes w: "collapsed w"
  shows "collapsed (dropWhile is_space (drop n w))"
proof -
  let ?r = "dropWhile is_space (drop n w)"
  define k where "k = n + length (takeWhile is_space (drop n w))"
  have r: "?r = drop k w"
    by (simp add: k_def dropWhile_eq_drop add.commute)
  have 1: "\<forall>c \<in> set ?r. is_space c \<longrightarrow> c = CHR '' ''"
    using w unfolding collapsed_def r by (meson in_set_dropD)
  have 2: "hd ?r \<noteq> CHR '' '' \<and> last ?r \<noteq> CHR '' ''" if ne: "?r \<noteq> []"
  proof -
    have "\<not> is_space (hd ?r)" using ne by (rule hd_dropWhile)
    then have h: "hd ?r \<noteq> CHR '' ''" using is_space_space by auto
    have "k < length w" using ne unfolding r by simp
    then have "last ?r = last w" "w \<noteq> []" unfolding r by auto
    then show ?thesis using h w by (simp add: collapsed_def)
  qed
  have 3: "\<not> (?r ! i = CHR '' '' \<and> ?r ! Suc i = CHR '' '')" if "Suc i < length ?r" for i
  proof -
    from that have "Suc (k + i) < length w" unfolding r by simp
    moreover have "?r ! i = w ! (k + i)" "?r ! Suc i = w ! Suc (k + i)"
      using that unfolding r by simp_all
    ultimately show ?thesis using w by (simp add: collapsed_def)
  qed
  show ?thesis unfolding collapsed_def using 1 2 3 by blast
qed

lemma match_prefix_ws_collapsed:
  assumes w: "collapsed w"
  shows "match_prefix_ws p w =
           (if take (Suc (length p)) w = p @ '' '' then Some (drop (Suc (length p)) w) else None)"
proof (cases "take (length p) w = p \<and> (case drop (length p) w of [] \<Rightarrow> False | c # cs \<Rightarrow> is_space c)")
  case False
  have "take (Suc (length p)) w \<noteq> p @ '' ''"
  proof
    assume t: "take (Suc (length p)) w = p @ '' ''"
    then have "take (length p) (take (Suc (length p)) w) = p" by simp
    then have tp: "take (length p) w = p" by (simp add: min_def)
    have "length (take (Suc (length p)) w) = Suc (length p)" using t by simp
    then have lt: "length p < length w" by simp
    have "w ! length p = (take (Suc (length p)) w) ! length p" by simp
    also have "\<dots> = CHR '' ''" unfolding t by (simp add: nth_append)
    finally have "drop (length p) w = CHR '' '' # drop (Suc (length p)) w"
      using lt by (metis Cons_nth_drop_Suc)
    with tp False is_space_space show False by simp
  qed
  with False show ?thesis by (simp add: match_prefix_ws_def)
next
  case True
  then obtain c cs where tp: "take (length p) w = p" and d: "drop (length p) w = c # cs"
    and c: "is_space c"
    by (auto split: list.splits)
  have weq: "w = p @ c # cs" using tp d by (metis append_take_drop_id)
  have "c \<in> set w" by (subst weq) simp
  then have csp: "c = CHR '' ''" using w c by (simp add: collapsed_def)
  have rest: "dropWhile is_space cs = cs"
  proof (cases cs)
    case Nil
    then show ?thesis by simp
  next
    case (Cons x xs)
    have "Suc (length p) < length w" by (subst weq) (simp add: Cons)
    moreover have "w ! length p = CHR '' ''" by (subst weq) (simp add: csp)
    moreover have "w ! Suc (length p) = x" by (subst weq) (simp add: Cons nth_append)
    ultimately have "x \<noteq> CHR '' ''" using w unfolding collapsed_def by metis
    moreover have "x \<in> set w" by (subst weq) (simp add: Cons)
    ultimately have "\<not> is_space x" using w unfolding collapsed_def by metis
    then show ?thesis by (simp add: Cons)
  qed
  have "take (Suc (length p)) w = p @ '' ''" by (subst weq) (simp add: csp)
  moreover have "drop (Suc (length p)) w = cs" by (subst weq) simp
  moreover have "match_prefix_ws p w = Some (dropWhile is_space cs)"
    using True c by (simp add: match_prefix_ws_def d)
  ultimately show ?thesis using rest by simp
qed

lemma normalize_names_loop_map:
  "normalize_names_loop nrm tok acc ps =
     acc @ map (\<lambda>p. \<lparr>pp_id = rp_id p, pp_name = rp_name p,
                      normalized_name = nrm (rp_name p),
                      name_tokens = tok (nrm (rp_name p))\<rparr>) ps"
  by (induction ps arbitrary: acc) (simp_all add: Let_def)

lemma collapsed_joined_name: "collapsed (py_lower (py_join '' '' (py_split name)))"
  using collapsed_join [OF py_split_words] by (simp add: collapsed_lower)

lemma re_sub_store_prefix_collapsed:
  assumes "collapsed w"
  shows "re_sub_store_prefix w =
     (if take 3 w = ''ah '' then drop 3 w
      else if take 6 w = ''jumbo '' then drop 6 w
      else if take 5 w = ''dirk '' then drop 5 w
      else w)"
proof -
  have l: "Suc (length ''ah'') = 3" "Suc (length ''jumbo'') = 6" "Suc (length ''dirk'') = 5"
    by simp_all
  have ah: "match_prefix_ws ''ah'' w = (if take 3 w = ''ah '' then Some (drop 3 w) else None)"
    using match_prefix_ws_collapsed [OF assms, of "''ah''"] unfolding l by simp
  have jumbo: "match_prefix_ws ''jumbo'' w = (if take 6 w = ''jumbo '' then Some (drop 6 w) else None)"
    using match_prefix_ws_collapsed [OF assms, of "''jumbo''"] unfolding l by simp
  have dirk: "match_prefix_ws ''dirk'' w = (if take 5 w = ''dirk '' then Some (drop 5 w) else None)"
    using match_prefix_ws_collapsed [OF assms, of "''dirk''"] unfolding l by simp
  show ?thesis unfolding re_sub_store_prefix_def ah jumbo dirk by simp
qed

lemma collapsed_re_sub:
  assumes "collapsed w"
  shows "collapsed (re_sub_store_prefix w)"
  using assms collapsed_suffix [OF assms]
  by (simp add: re_sub_store_prefix_def match_prefix_ws_def split: option.splits if_splits)

lemma py_lower_idem: "py_lower (py_lower s) = py_lower s"
  by (simp add: py_lower_def)

lemma py_lower_drop: "py_lower s = s \<Longrightarrow> py_lower (drop n s) = drop n s"
  by (simp add: py_lower_def drop_map [symmetric])

text \<open>
  Claim C9, as the code has it. Normalization is a function of the raw name alone, and
  \<open>normalize_names\<close> yields one processed product per raw product. The canonical name is the
  raw name with whitespace collapsed to single spaces (none leading or trailing) and
  lower-cased, from which one leading \<^verbatim>\<open>ah\<close>, \<^verbatim>\<open>jumbo\<close> or \<^verbatim>\<open>dirk\<close> followed by a space is
  removed; no other prefix is removed. The result is again collapsed and lower-cased.
\<close>

theorem normalize_product_name_shape:
  "length (normalize_names normalize_product_name tokenize raw_products) = length raw_products \<and>
   map normalized_name (normalize_names normalize_product_name tokenize raw_products) =
     map (\<lambda>p. normalize_product_name (rp_name p)) raw_products \<and>
   normalize_product_name name =
     (let w = py_lower (py_join '' '' (py_split name)) in
      if take 3 w = ''ah '' then drop 3 w
      else if take 6 w = ''jumbo '' then drop 6 w
      else if take 5 w = ''dirk '' then drop 5 w
      else w) \<and>
   collapsed (py_lower (py_join '' '' (py_split name))) \<and>
   collapsed (normalize_product_name name) \<and>
   py_lower (normalize_product_name name) = normalize_product_name name"
proof -
  let ?w = "py_lower (py_join '' '' (py_split name))"
  have c: "collapsed ?w" by (rule collapsed_joined_name)
  have n: "normalize_product_name name = re_sub_store_prefix ?w"
    by (simp add: normalize_product_name_def)
  have e: "normalize_product_name name =
     (let w = ?w in
      if take 3 w = ''ah '' then drop 3 w
      else if take 6 w = ''jumbo '' then drop 6 w
      else if take 5 w = ''dirk '' then drop 5 w
      else w)"
    unfolding n Let_def by (rule re_sub_store_prefix_collapsed [OF c])
  have l: "py_lower ?w = ?w" by (rule py_lower_idem)
  have lo: "py_lower (normalize_product_name name) = normalize_product_name name"
    unfolding e Let_def using l by (simp add: py_lower_drop)
  have cr: "collapsed (normalize_product_name name)"
    unfolding n by (rule collapsed_re_sub [OF c])
  have m: "length (normalize_names normalize_product_name tokenize raw_products) = length raw_products"
    "map normalized_name (normalize_names normalize_product_name tokenize raw_products) =
     map (\<lambda>p. normalize_product_name (rp_name p)) raw_products"
    by (simp_all add: normalize_names_def normalize_names_loop_map o_def)
  show ?thesis using m e c cr lo by blast
qed

text \<open>The name of a Hoogvliet product keeps the store's name in front.\<close>

theorem other_store_prefix_is_kept:
  "normalize_product_name ''Hoogvliet  Halfvolle Melk'' = ''hoogvliet halfvolle melk''"
  by code_simp

text \<open>An Albert Heijn product: the prefix goes, the spaces are collapsed.\<close>

theorem normalize_product_name_shape_witness:
  "normalize_product_name ''  AH   Halfvolle Melk '' = ''halfvolle melk'' \<and>
   collapsed (normalize_product_name ''  AH   Halfvolle Melk '') \<and>
   hd (normalize_product_name ''  AH   Halfvolle Melk '') \<noteq> CHR '' '' \<and>
   last (normalize_product_name ''  AH   Halfvolle Melk '') \<noteq> CHR '' ''"
proof -
  have v: "normalize_product_name ''  AH   Halfvolle Melk '' = ''halfvolle melk''"
    by code_simp
  then have ne: "normalize_product_name ''  AH   Halfvolle Melk '' \<noteq> []" by simp
  from normalize_product_name_shape [of "\<lambda>s. [s]" "[]" "''  AH   Halfvolle Melk ''"]
  have c: "collapsed (normalize_product_name ''  AH   Halfvolle Melk '')" by blast
  then have "hd (normalize_product_name ''  AH   Halfvolle Melk '') \<noteq> CHR '' '' \<and>
   last (normalize_product_name ''  AH   Halfvolle Melk '') \<noteq> CHR '' ''"
    using ne unfolding collapsed_def by blast
  with v c show ?thesis by blast
qed

section \<open>Properties of duplicate detection\<close>

lemma dd_inner_eq:
  "dd_inner sim ms i p j rest (dups, lg) =
     (dups @ map (mk_duplicate sim ms p) (filter (\<lambda>q. sim p q > 85/100) rest),
      lg @ map (Pair i) [j ..< j + length rest])"
proof (induction rest arbitrary: j dups lg)
  case Nil show ?case by simp
next
  case (Cons q rest)
  show ?case by (simp add: Cons.IH mk_duplicate_def upt_conv_Cons del: upt.simps)
qed

lemma index_pairs_step: "i < n \<Longrightarrow> index_pairs i n = map (Pair i) [Suc i ..< n] @ index_pairs (Suc i) n"
  by (simp add: index_pairs_def upt_conv_Cons del: upt.simps)

lemma index_pairs_done: "n \<le> i \<Longrightarrow> index_pairs i n = []"
  by (simp add: index_pairs_def)

lemma dd_outer_eq:
  "dd_outer sim ms i ps (dups, lg) =
     (dups @ map (\<lambda>(p, q). mk_duplicate sim ms p q) (filter (\<lambda>(p, q). sim p q > 85/100) (batch_pairs ps)),
      lg @ index_pairs i (i + length ps))"
proof (induction ps arbitrary: i dups lg)
  case Nil show ?case by (simp add: index_pairs_done)
next
  case (Cons p rest)
  have "index_pairs i (i + length (p # rest)) =
        map (Pair i) [Suc i ..< Suc i + length rest] @ index_pairs (Suc i) (Suc i + length rest)"
    using index_pairs_step [of i "i + length (p # rest)"] by simp
  then show ?case
    by (simp add: dd_inner_eq Cons.IH filter_map o_def del: upt.simps)
qed

lemma set_index_pairs: "set (index_pairs i n) = {(a, b). i \<le> a \<and> a < b \<and> b < n}"
proof -
  have "(a, b) \<in> set (index_pairs i n) \<longleftrightarrow> i \<le> a \<and> a < b \<and> b < n" for a b
    unfolding index_pairs_def set_concat set_map set_upt by fastforce
  then show ?thesis by auto
qed

lemma distinct_index_pairs: "distinct (index_pairs i n)"
proof (induction "n - i" arbitrary: i)
  case 0
  then show ?case by (simp add: index_pairs_done)
next
  case (Suc k)
  then have lt: "i < n" and k: "k = n - Suc i" by auto
  have "distinct (map (Pair i) [Suc i ..< n])"
    by (simp add: distinct_map inj_on_def)
  moreover have "set (map (Pair i) [Suc i ..< n]) \<inter> set (index_pairs (Suc i) n) = {}"
    unfolding set_index_pairs set_map set_upt by fastforce
  ultimately show ?case
    using Suc.hyps(1) [OF k] unfolding index_pairs_step [OF lt] distinct_append by blast
qed

lemma batch_pairs_index:
  "map (\<lambda>(a, b). (xs ! a, xs ! b)) (index_pairs i (length xs)) = batch_pairs (drop i xs)"
proof (induction "length xs - i" arbitrary: i)
  case 0
  then show ?case by (simp add: index_pairs_done)
next
  case (Suc k)
  then have lt: "i < length xs" and k: "k = length xs - Suc i" by auto
  have d: "drop i xs = xs ! i # drop (Suc i) xs" using lt by (simp add: Cons_nth_drop_Suc)
  have m: "map (\<lambda>b. (xs ! i, xs ! b)) [Suc i ..< length xs] = map (Pair (xs ! i)) (drop (Suc i) xs)"
    by (rule nth_equalityI) (auto simp: )
  show ?case
    using Suc.hyps(1) [OF k] m by (simp add: index_pairs_step [OF lt] d o_def del: upt.simps)
qed

lemma detect_duplicates_run_eq:
  "detect_duplicates_run sim ms ps =
     (map (\<lambda>(p, q). mk_duplicate sim ms p q) (filter (\<lambda>(p, q). sim p q > 85/100) (batch_pairs ps)),
      index_pairs 0 (length ps))"
  by (simp add: detect_duplicates_run_def dd_outer_eq)

lemma detect_duplicates_by_index:
  "detect_duplicates sim ms ps =
     map (\<lambda>(i, j). mk_duplicate sim ms (ps ! i) (ps ! j))
       (filter (\<lambda>(i, j). sim (ps ! i) (ps ! j) > 85/100) (scored_pairs sim ms ps))"
proof -
  have "batch_pairs ps = map (\<lambda>(a, b). (ps ! a, ps ! b)) (index_pairs 0 (length ps))"
    using batch_pairs_index [of ps 0] by simp
  then show ?thesis
    by (simp add: detect_duplicates_def scored_pairs_def detect_duplicates_run_eq filter_map
        o_def split_def)
qed

lemma id_pairs_by_index:
  "map id_pair (detect_duplicates sim ms ps) =
     map (\<lambda>(i, j). (pp_id (ps ! i), pp_id (ps ! j)))
       (filter (\<lambda>(i, j). sim (ps ! i) (ps ! j) > 85/100) (scored_pairs sim ms ps))"
  by (simp add: detect_duplicates_by_index id_pair_def mk_duplicate_def o_def split_def)

text \<open>
  A batch that holds the same id twice: the product ids 1, 2, 1 with a score of 0.86 give the
  pair of id 1 with itself and the pair of the ids 1 and 2 in both orders; three products of
  id 1 give the same pair three times.
\<close>

theorem repeated_id_gives_self_pair:
  "map id_pair (detect_duplicates score_086 keep_first [formula_a, formula_b, formula_a]) =
     [(1, 2), (1, 1), (2, 1)] \<and>
   map id_pair (detect_duplicates score_086 keep_first [formula_a, formula_a, formula_a]) =
     [(1, 1), (1, 1), (1, 1)]"
  by (simp add: detect_duplicates_def detect_duplicates_run_def score_086_def id_pair_def
      formula_a_def formula_b_def)

text \<open>
  Claim C10, as the code has it. In a pass over a batch the index pairs scored are exactly the
  pairs \<open>(i, j)\<close> with \<open>i < j < length products\<close>, each once, so no entity is compared with
  itself and no unordered pair of positions is scored twice; every recorded duplicate comes
  from one scored pair, its first entity earlier in the batch than its second. A record holds
  the ids of the two products: where the ids of the batch are distinct, the recorded id pairs
  are distinct too, none is a self-pair, and none occurs in both orders.
\<close>

theorem detect_duplicates_scores_each_pair_once:
  "distinct (scored_pairs sim ms ps) \<and>
   set (scored_pairs sim ms ps) = {(i, j). i < j \<and> j < length ps} \<and>
   detect_duplicates sim ms ps =
     map (\<lambda>(i, j). mk_duplicate sim ms (ps ! i) (ps ! j))
       (filter (\<lambda>(i, j). sim (ps ! i) (ps ! j) > 85/100) (scored_pairs sim ms ps)) \<and>
   (distinct (map pp_id ps) \<longrightarrow>
      distinct (map id_pair (detect_duplicates sim ms ps)) \<and>
      (\<forall>d \<in> set (detect_duplicates sim ms ps).
         product1_id d \<noteq> product2_id d \<and>
         (product2_id d, product1_id d) \<notin> id_pair ` set (detect_duplicates sim ms ps) \<and>
         (\<exists>i j. i < j \<and> j < length ps \<and>
                product1_id d = pp_id (ps ! i) \<and> product2_id d = pp_id (ps ! j))))"
proof -
  let ?sc = "scored_pairs sim ms ps"
  let ?hit = "\<lambda>(i, j). sim (ps ! i) (ps ! j) > 85/100"
  let ?ids = "\<lambda>(i, j). (pp_id (ps ! i), pp_id (ps ! j))"
  have sc: "?sc = index_pairs 0 (length ps)"
    by (simp add: scored_pairs_def detect_duplicates_run_eq)
  have d: "distinct ?sc" by (simp add: sc distinct_index_pairs)
  have s: "set ?sc = {(i, j). i < j \<and> j < length ps}" by (simp add: sc set_index_pairs)
  have e: "detect_duplicates sim ms ps =
     map (\<lambda>(i, j). mk_duplicate sim ms (ps ! i) (ps ! j)) (filter ?hit ?sc)"
    by (rule detect_duplicates_by_index)
  have ids: "distinct (map id_pair (detect_duplicates sim ms ps)) \<and>
      (\<forall>d \<in> set (detect_duplicates sim ms ps).
         product1_id d \<noteq> product2_id d \<and>
         (product2_id d, product1_id d) \<notin> id_pair ` set (detect_duplicates sim ms ps) \<and>
         (\<exists>i j. i < j \<and> j < length ps \<and>
                product1_id d = pp_id (ps ! i) \<and> product2_id d = pp_id (ps ! j)))"
    if dist: "distinct (map pp_id ps)"
  proof -
    have inj: "pp_id (ps ! a) = pp_id (ps ! b) \<longleftrightarrow> a = b" if "a < length ps" "b < length ps" for a b
      using dist that by (metis distinct_conv_nth length_map nth_map)
    have "inj_on ?ids (set (filter ?hit ?sc))"
      unfolding inj_on_def using s inj by fastforce
    then have d1: "distinct (map id_pair (detect_duplicates sim ms ps))"
      unfolding id_pairs_by_index using d by (simp add: distinct_map)
    have mem: "\<exists>i j. i < j \<and> j < length ps \<and> ?hit (i, j) \<and> id_pair x = (pp_id (ps ! i), pp_id (ps ! j))"
      if "x \<in> set (detect_duplicates sim ms ps)" for x
    proof -
      from that have "id_pair x \<in> set (map id_pair (detect_duplicates sim ms ps))" by simp
      then have "id_pair x \<in> ?ids ` set (filter ?hit ?sc)"
        unfolding id_pairs_by_index by simp
      then show ?thesis using s by fastforce
    qed
    have d2: "product1_id x \<noteq> product2_id x \<and>
         (product2_id x, product1_id x) \<notin> id_pair ` set (detect_duplicates sim ms ps) \<and>
         (\<exists>i j. i < j \<and> j < length ps \<and>
                product1_id x = pp_id (ps ! i) \<and> product2_id x = pp_id (ps ! j))"
      if x: "x \<in> set (detect_duplicates sim ms ps)" for x
    proof -
      from mem [OF x] obtain i j where ij: "i < j" "j < length ps"
        "id_pair x = (pp_id (ps ! i), pp_id (ps ! j))" by blast
      then have p1: "product1_id x = pp_id (ps ! i)" and p2: "product2_id x = pp_id (ps ! j)"
        by (simp_all add: id_pair_def)
      have ne: "product1_id x \<noteq> product2_id x"
        using inj [of i j] ij p1 p2 by simp
      have "(product2_id x, product1_id x) \<notin> id_pair ` set (detect_duplicates sim ms ps)"
      proof
        assume "(product2_id x, product1_id x) \<in> id_pair ` set (detect_duplicates sim ms ps)"
        then obtain y where y: "y \<in> set (detect_duplicates sim ms ps)"
          and yx: "id_pair y = (product2_id x, product1_id x)" by auto
        from mem [OF y] obtain k l where kl: "k < l" "l < length ps"
          "id_pair y = (pp_id (ps ! k), pp_id (ps ! l))" by blast
        then have "pp_id (ps ! k) = pp_id (ps ! j)" "pp_id (ps ! l) = pp_id (ps ! i)"
          using yx p1 p2 by simp_all
        then have "k = j" "l = i" using inj [of k j] inj [of l i] kl ij by simp_all
        then show False using kl ij by simp
      qed
      then show ?thesis using ne ij p1 p2 by blast
    qed
    show ?thesis using d1 d2 by blast
  qed
  show ?thesis using d s e ids by blast
qed

text \<open>A batch of two products with distinct ids and a score of 0.86.\<close>

theorem detect_duplicates_scores_each_pair_once_witness:
  "distinct (map pp_id [formula_a, formula_b]) \<and>
   scored_pairs score_086 keep_first [formula_a, formula_b] = [(0, 1)] \<and>
   detect_duplicates score_086 keep_first [formula_a, formula_b] \<noteq> [] \<and>
   distinct (map id_pair (detect_duplicates score_086 keep_first [formula_a, formula_b]))"
proof -
  have h: "distinct (map pp_id [formula_a, formula_b])"
    by (simp add: formula_a_def formula_b_def)
  have sc: "scored_pairs score_086 keep_first [formula_a, formula_b] = [(0, 1)]"
    by (simp add: scored_pairs_def detect_duplicates_run_def)
  have ne: "detect_duplicates score_086 keep_first [formula_a, formula_b] \<noteq> []"
    by (simp add: detect_duplicates_def detect_duplicates_run_def score_086_def)
  from detect_duplicates_scores_each_pair_once [of score_086 keep_first "[formula_a, formula_b]"] h
  have "distinct (map id_pair (detect_duplicates score_086 keep_first [formula_a, formula_b]))"
    by blast
  with h sc ne show ?thesis by blast
qed

text \<open>A pair that scores exactly 0.85 is not recorded.\<close>

theorem score_exactly_085_is_no_duplicate:
  "score_085 formula_a formula_b = 85 / 100 \<and>
   detect_duplicates score_085 keep_first [formula_a, formula_b] = []"
  by (simp add: detect_duplicates_def detect_duplicates_run_def score_085_def)

text \<open>
  Claim C6, as the code has it: the test is \<^verbatim>\<open>similarity > 0.85\<close>. The duplicates are the
  records of the pairs of the batch, in loop order, whose score is strictly greater than 0.85;
  a pair of the batch is recorded exactly when its score is strictly greater than 0.85.
\<close>

theorem duplicate_iff_score_above_085:
  "detect_duplicates sim ms ps =
     map (\<lambda>(p, q). mk_duplicate sim ms p q) (filter (\<lambda>(p, q). sim p q > 85/100) (batch_pairs ps)) \<and>
   ((p, q) \<in> set (batch_pairs ps) \<longrightarrow>
      (mk_duplicate sim ms p q \<in> set (detect_duplicates sim ms ps) \<longleftrightarrow> sim p q > 85/100))"
proof -
  have e: "detect_duplicates sim ms ps =
     map (\<lambda>(p, q). mk_duplicate sim ms p q) (filter (\<lambda>(p, q). sim p q > 85/100) (batch_pairs ps))"
    by (simp add: detect_duplicates_def detect_duplicates_run_eq)
  have "mk_duplicate sim ms p q \<in> set (detect_duplicates sim ms ps) \<longleftrightarrow> sim p q > 85/100"
    if pq: "(p, q) \<in> set (batch_pairs ps)"
  proof
    assume "mk_duplicate sim ms p q \<in> set (detect_duplicates sim ms ps)"
    then obtain p' q' where "sim p' q' > 85/100" "mk_duplicate sim ms p q = mk_duplicate sim ms p' q'"
      unfolding e by auto
    then show "sim p q > 85/100" by (simp add: mk_duplicate_def)
  next
    assume "sim p q > 85/100"
    with pq show "mk_duplicate sim ms p q \<in> set (detect_duplicates sim ms ps)"
      unfolding e by force
  qed
  with e show ?thesis by blast
qed

text \<open>The pair of the two-product batch, scoring 0.86, is recorded.\<close>

theorem duplicate_iff_score_above_085_witness:
  "(formula_a, formula_b) \<in> set (batch_pairs [formula_a, formula_b]) \<and>
   score_086 formula_a formula_b > 85 / 100 \<and>
   mk_duplicate score_086 keep_first formula_a formula_b
     \<in> set (detect_duplicates score_086 keep_first [formula_a, formula_b])"
proof -
  have h: "(formula_a, formula_b) \<in> set (batch_pairs [formula_a, formula_b])" by simp
  have g: "score_086 formula_a formula_b > 85 / 100" by (simp add: score_086_def)
  from duplicate_iff_score_above_085 [of score_086 keep_first "[formula_a, formula_b]" formula_a formula_b] h g
  show ?thesis by blast
qed

section \<open>Properties of error classification\<close>

lemma assigned_kind_text:
  "assigned_kind error =
     (let s = failure_text error; l = py_lower s in
      if py_in ''network'' l \<or> py_in ''timeout'' l then Some network_error
      else if py_in ''rate limit'' l \<or> py_in ''429'' s then Some rate_limit
      else if py_in ''parsing'' l \<or> py_in ''html'' l then Some parsing_error
      else if py_in ''database'' l \<or> py_in ''connection'' l then Some database_error
      else Some unknown)"
  by (simp add: assigned_kind_def classify_error_def str_of_def Let_def)

text \<open>
  Two failures with the same status code and the same exception category are assigned
  different kinds, because their texts differ; and a failure whose status code is 429 is
  assigned \<open>unknown\<close>, because its text names neither the code nor a rate limit.
\<close>

theorem same_metadata_different_kind:
  "status_code unavailable_network = status_code unavailable_database \<and>
   exception_category unavailable_network = exception_category unavailable_database \<and>
   assigned_kind unavailable_network = Some network_error \<and>
   assigned_kind unavailable_database = Some database_error \<and>
   status_code too_many_requests = Some 429 \<and>
   assigned_kind too_many_requests = Some unknown"
  unfolding assigned_kind_text unavailable_network_def unavailable_database_def too_many_requests_def
  by code_simp

text \<open>
  Claim C4, as the code has it: the kind is assigned from the text of the stringified error
  alone, by substring tests on the text in a fixed order: network or timeout gives
  \<open>network_error\<close>; otherwise rate limit or 429 gives \<open>rate_limit\<close>; otherwise parsing or html
  gives \<open>parsing_error\<close>; otherwise database or connection gives \<open>database_error\<close>; otherwise
  the kind is \<open>unknown\<close>. All tests but the one for 429 are made on the lower-cased text. Two
  failures with the same text are assigned the same kind, whatever their status codes and
  exception categories, and classification changes nothing of the state but the kind.
\<close>

theorem kind_depends_on_text_only:
  "assigned_kind e1 =
     (if py_in ''network'' (py_lower (failure_text e1)) \<or> py_in ''timeout'' (py_lower (failure_text e1))
        then Some network_error
      else if py_in ''rate limit'' (py_lower (failure_text e1)) \<or> py_in ''429'' (failure_text e1)
        then Some rate_limit
      else if py_in ''parsing'' (py_lower (failure_text e1)) \<or> py_in ''html'' (py_lower (failure_text e1))
        then Some parsing_error
      else if py_in ''database'' (py_lower (failure_text e1)) \<or> py_in ''connection'' (py_lower (failure_text e1))
        then Some database_error
      else Some unknown) \<and>
   (failure_text e1 = failure_text e2 \<longrightarrow> assigned_kind e1 = assigned_kind e2) \<and>
   es_error (classify_error state) = es_error state \<and>
   es_error_type (classify_error state) = assigned_kind (es_error state)"
proof -
  have 1: "assigned_kind e1 =
     (if py_in ''network'' (py_lower (failure_text e1)) \<or> py_in ''timeout'' (py_lower (failure_text e1))
        then Some network_error
      else if py_in ''rate limit'' (py_lower (failure_text e1)) \<or> py_in ''429'' (failure_text e1)
        then Some rate_limit
      else if py_in ''parsing'' (py_lower (failure_text e1)) \<or> py_in ''html'' (py_lower (failure_text e1))
        then Some parsing_error
      else if py_in ''database'' (py_lower (failure_text e1)) \<or> py_in ''connection'' (py_lower (failure_text e1))
        then Some database_error
      else Some unknown)"
    by (simp add: assigned_kind_text Let_def)
  have 2: "failure_text e1 = failure_text e2 \<longrightarrow> assigned_kind e1 = assigned_kind e2"
    by (simp add: assigned_kind_text)
  have 3: "es_error (classify_error state) = es_error state"
    by (simp add: classify_error_def Let_def)
  have 4: "es_error_type (classify_error state) = assigned_kind (es_error state)"
    by (simp add: assigned_kind_def classify_error_def Let_def)
  show ?thesis using 1 2 3 4 by blast
qed

text \<open>
  One failure for each of the five kinds, and two failures of different categories whose
  texts are the same.
\<close>

theorem kind_depends_on_text_only_witness:
  "assigned_kind storage_timeout = Some network_error \<and>
   assigned_kind limited_429 = Some rate_limit \<and>
   assigned_kind markup_changed = Some parsing_error \<and>
   assigned_kind unavailable_database = Some database_error \<and>
   assigned_kind too_many_requests = Some unknown \<and>
   failure_text storage_timeout =
     failure_text (storage_timeout\<lparr>status_code := Some 504, exception_category := ''GatewayTimeout''\<rparr>) \<and>
   assigned_kind storage_timeout =
     assigned_kind (storage_timeout\<lparr>status_code := Some 504, exception_category := ''GatewayTimeout''\<rparr>)"
proof -
  note t = kind_depends_on_text_only
  have n: "py_in ''timeout'' (py_lower (failure_text storage_timeout))"
    unfolding storage_timeout_def by code_simp
  have c1: "assigned_kind storage_timeout = Some network_error"
    using t [of storage_timeout storage_timeout] n by simp
  have r: "\<not> py_in ''network'' (py_lower (failure_text limited_429))"
    "\<not> py_in ''timeout'' (py_lower (failure_text limited_429))"
    "py_in ''429'' (failure_text limited_429)"
    unfolding limited_429_def by code_simp+
  have c2: "assigned_kind limited_429 = Some rate_limit"
    using t [of limited_429 limited_429] r by simp
  have m: "\<not> py_in ''network'' (py_lower (failure_text markup_changed))"
    "\<not> py_in ''timeout'' (py_lower (failure_text markup_changed))"
    "\<not> py_in ''rate limit'' (py_lower (failure_text markup_changed))"
    "\<not> py_in ''429'' (failure_text markup_changed)"
    "py_in ''html'' (py_lower (failure_text markup_changed))"
    unfolding markup_changed_def by code_simp+
  have c3: "assigned_kind markup_changed = Some parsing_error"
    using t [of markup_changed markup_changed] m by simp
  have d: "\<not> py_in ''network'' (py_lower (failure_text unavailable_database))"
    "\<not> py_in ''timeout'' (py_lower (failure_text unavailable_database))"
    "\<not> py_in ''rate limit'' (py_lower (failure_text unavailable_database))"
    "\<not> py_in ''429'' (failure_text unavailable_database)"
    "\<not> py_in ''parsing'' (py_lower (failure_text unavailable_database))"
    "\<not> py_in ''html'' (py_lower (failure_text unavailable_database))"
    "py_in ''database'' (py_lower (failure_text unavailable_database))"
    unfolding unavailable_database_def by code_simp+
  have c4: "assigned_kind unavailable_database = Some database_error"
    using t [of unavailable_database unavailable_database] d by simp
  have u: "\<not> py_in ''network'' (py_lower (failure_text too_many_requests))"
    "\<not> py_in ''timeout'' (py_lower (failure_text too_many_requests))"
    "\<not> py_in ''rate limit'' (py_lower (failure_text too_many_requests))"
    "\<not> py_in ''429'' (failure_text too_many_requests)"
    "\<not> py_in ''parsing'' (py_lower (failure_text too_many_requests))"
    "\<not> py_in ''html'' (py_lower (failure_text too_many_requests))"
    "\<not> py_in ''database'' (py_lower (failure_text too_many_requests))"
    "\<not> py_in ''connection'' (py_lower (failure_text too_many_requests))"
    unfolding too_many_requests_def by code_simp+
  have c5: "assigned_kind too_many_requests = Some unknown"
    using t [of too_many_requests too_many_requests] u by simp
  have h: "failure_text storage_timeout =
     failure_text (storage_timeout\<lparr>status_code := Some 504, exception_category := ''GatewayTimeout''\<rparr>)"
    by simp
  have c6: "assigned_kind storage_timeout =
     assigned_kind (storage_timeout\<lparr>status_code := Some 504, exception_category := ''GatewayTimeout''\<rparr>)"
    using t [of storage_timeout "storage_timeout\<lparr>status_code := Some 504, exception_category := ''GatewayTimeout''\<rparr>"] h
    by blast
  show ?thesis using c1 c2 c3 c4 c5 h c6 by blast
qed

section \<open>Properties of retry with backoff\<close>

lemma retry_loop_shape:
  "retry_loop func jitter [i ..< n] slept = (res, sl) \<Longrightarrow> i \<le> n \<Longrightarrow>
   (\<exists>m. i \<le> m \<and> m \<le> n \<and>
        sl = slept @ map (\<lambda>k. 2 ^ k + jitter k) [i ..< m] \<and>
        (\<forall>k. i \<le> k \<and> k < m \<longrightarrow> func k = RateLimitError) \<and>
        (m = n \<longrightarrow> res = Inl MaxRetriesExceeded) \<and>
        (m < n \<longrightarrow> (case func m of Returned v \<Rightarrow> res = Inr v
                               | RateLimitError \<Rightarrow> False
                               | OtherError e \<Rightarrow> res = Inl (Raised e))))"
proof (induction "n - i" arbitrary: i slept)
  case 0
  then have "i = n" by simp
  with 0 show ?case by auto
next
  case (Suc d)
  then have lt: "i < n" by simp
  then have up: "[i ..< n] = i # [Suc i ..< n]" by (simp add: upt_conv_Cons)
  show ?case
  proof (cases "func i")
    case (Returned v)
    with Suc.prems up have "res = Inr v" "sl = slept" by simp_all
    with Returned lt show ?thesis by (intro exI [of _ i]) auto
  next
    case (OtherError e)
    with Suc.prems up have "res = Inl (Raised e)" "sl = slept" by simp_all
    with OtherError lt show ?thesis by (intro exI [of _ i]) auto
  next
    case RateLimitError
    with Suc.prems up have r: "retry_loop func jitter [Suc i ..< n] (slept @ [2 ^ i + jitter i]) = (res, sl)"
      by (simp add: Let_def)
    have d: "d = n - Suc i" using Suc.hyps(2) by simp
    from Suc.hyps(1) [OF d r] lt obtain m where m: "Suc i \<le> m" "m \<le> n"
        "sl = (slept @ [2 ^ i + jitter i]) @ map (\<lambda>k. 2 ^ k + jitter k) [Suc i ..< m]"
        "\<forall>k. Suc i \<le> k \<and> k < m \<longrightarrow> func k = RateLimitError"
        "m = n \<longrightarrow> res = Inl MaxRetriesExceeded"
        "m < n \<longrightarrow> (case func m of Returned v \<Rightarrow> res = Inr v
                               | RateLimitError \<Rightarrow> False
                               | OtherError e \<Rightarrow> res = Inl (Raised e))"
      by auto
    have "[i ..< m] = i # [Suc i ..< m]" using m(1) by (simp add: upt_conv_Cons)
    then have sl: "sl = slept @ map (\<lambda>k. 2 ^ k + jitter k) [i ..< m]" using m(3) by simp
    have all: "\<forall>k. i \<le> k \<and> k < m \<longrightarrow> func k = RateLimitError"
      using m(4) RateLimitError by (metis Suc_leI le_neq_implies_less)
    show ?thesis
      using m(1,2,5,6) sl all by (intro exI [of _ m]) simp
  qed
qed

text \<open>
  A call that is rate limited every time, with three attempts allowed: the sleeps are 1, 2 and
  4 seconds, each failure uses one of the three attempts, and after the third sleep nothing is
  tried again.
\<close>

theorem rate_limit_uses_up_max_retries:
  "retry_with_backoff always_limited no_jitter 3 = (Inl MaxRetriesExceeded, [1, 2, 4])"
  by (simp add: retry_with_backoff_def always_limited_def no_jitter_def upt_conv_Cons)

text \<open>
  Claim C8, as the code has it. The function makes at most \<open>max_retries\<close> calls. Each call
  that fails with a rate limit is followed by a sleep of \<open>2 ^ attempt\<close> seconds plus the jitter
  and uses up one of the \<open>max_retries\<close> attempts, the only bound there is; when all of them
  are used up, "Max retries exceeded" is raised. The first call that does not fail with a rate
  limit ends the loop: its value is returned, or its failure is raised without a retry.
\<close>

theorem retry_with_backoff_shape:
  "\<exists>m \<le> nat max_retries.
     snd (retry_with_backoff func jitter max_retries) = map (\<lambda>k. 2 ^ k + jitter k) [0 ..< m] \<and>
     (\<forall>k < m. func k = RateLimitError) \<and>
     (m = nat max_retries \<longrightarrow>
        fst (retry_with_backoff func jitter max_retries) = Inl MaxRetriesExceeded) \<and>
     (m < nat max_retries \<longrightarrow>
        (case func m of
           Returned v \<Rightarrow> fst (retry_with_backoff func jitter max_retries) = Inr v
         | RateLimitError \<Rightarrow> False
         | OtherError e \<Rightarrow> fst (retry_with_backoff func jitter max_retries) = Inl (Raised e)))"
proof -
  obtain res sl where r: "retry_loop func jitter [0 ..< nat max_retries] [] = (res, sl)"
    by (cases "retry_loop func jitter [0 ..< nat max_retries] []") auto
  from retry_loop_shape [OF r] obtain m where m: "m \<le> nat max_retries"
      "sl = map (\<lambda>k. 2 ^ k + jitter k) [0 ..< m]"
      "\<forall>k. 0 \<le> k \<and> k < m \<longrightarrow> func k = RateLimitError"
      "m = nat max_retries \<longrightarrow> res = Inl MaxRetriesExceeded"
      "m < nat max_retries \<longrightarrow> (case func m of Returned v \<Rightarrow> res = Inr v
                               | RateLimitError \<Rightarrow> False
                               | OtherError e \<Rightarrow> res = Inl (Raised e))"
    by auto
  have f: "fst (retry_with_backoff func jitter max_retries) = res"
    and s: "snd (retry_with_backoff func jitter max_retries) = sl"
    by (simp_all add: retry_with_backoff_def r)
  show ?thesis
    unfolding f s using m by (intro exI [of _ m]) simp
qed

text \<open>
  A call that is rate limited once and then answers: one sleep of one second. A call that
  is rate limited every time: three sleeps, then the error.
\<close>

theorem retry_with_backoff_shape_witness:
  "retry_with_backoff limited_once no_jitter 3 = (Inr 200, [1]) \<and>
   (\<exists>m \<le> nat 3. m < nat 3 \<and> limited_once m = Returned 200 \<and>
      snd (retry_with_backoff limited_once no_jitter 3) = map (\<lambda>k. 2 ^ k + no_jitter k) [0 ..< m]) \<and>
   fst (retry_with_backoff always_limited no_jitter 3) = Inl MaxRetriesExceeded \<and>
   snd (retry_with_backoff always_limited no_jitter 3) = map (\<lambda>k. 2 ^ k + no_jitter k) [0 ..< nat 3]"
proof -
  have v: "retry_with_backoff limited_once no_jitter 3 = (Inr 200, [1])"
    by (simp add: retry_with_backoff_def limited_once_def no_jitter_def upt_conv_Cons)
  from retry_with_backoff_shape [of 3 limited_once no_jitter]
  obtain m where m: "m \<le> nat 3"
    "snd (retry_with_backoff limited_once no_jitter 3) = map (\<lambda>k. 2 ^ k + no_jitter k) [0 ..< m]"
    "m = nat 3 \<longrightarrow> fst (retry_with_backoff limited_once no_jitter 3) = Inl MaxRetriesExceeded"
    "m < nat 3 \<longrightarrow>
        (case limited_once m of
           Returned v \<Rightarrow> fst (retry_with_backoff limited_once no_jitter 3) = Inr v
         | RateLimitError \<Rightarrow> False
         | OtherError e \<Rightarrow> fst (retry_with_backoff limited_once no_jitter 3) = Inl (Raised e))"
    by blast
  have "m \<noteq> nat 3" using m(3) v by auto
  then have lt: "m < nat 3" using m(1) by simp
  have "limited_once m = Returned 200"
    using m(4) lt by (simp add: limited_once_def split: if_splits)
  with lt m(1,2) have a: "\<exists>m \<le> nat 3. m < nat 3 \<and> limited_once m = Returned 200 \<and>
      snd (retry_with_backoff limited_once no_jitter 3) = map (\<lambda>k. 2 ^ k + no_jitter k) [0 ..< m]"
    by blast
  from retry_with_backoff_shape [of 3 always_limited no_jitter]
  obtain n where n: "n \<le> nat 3"
    "snd (retry_with_backoff always_limited no_jitter 3) = map (\<lambda>k. 2 ^ k + no_jitter k) [0 ..< n]"
    "n = nat 3 \<longrightarrow> fst (retry_with_backoff always_limited no_jitter 3) = Inl MaxRetriesExceeded"
    "n < nat 3 \<longrightarrow>
        (case always_limited n of
           Returned v \<Rightarrow> fst (retry_with_backoff always_limited no_jitter 3) = Inr v
         | RateLimitError \<Rightarrow> False
         | OtherError e \<Rightarrow> fst (retry_with_backoff always_limited no_jitter 3) = Inl (Raised e))"
    by blast
  have "\<not> n < nat 3" using n(4) by (auto simp: always_limited_def)
  then have "n = nat 3" using n(1) by simp
  with n(2,3) have b: "fst (retry_with_backoff always_limited no_jitter 3) = Inl MaxRetriesExceeded"
    "snd (retry_with_backoff always_limited no_jitter 3) = map (\<lambda>k. 2 ^ k + no_jitter k) [0 ..< nat 3]"
    by simp_all
  show ?thesis using v a b by blast
qed

section \<open>Properties of the job actions\<close>

text \<open>
  The retry button of a failed job: the job leaves its terminal status and is pending again,
  with its counters reset.
\<close>

theorem retry_moves_failed_job_back:
  "status failed_job = failed \<and> terminal (status failed_job) \<and>
   retry \<in> set (offered (status failed_job)) \<and>
   map status (handleJobAction [failed_job, running_job] (sj_id failed_job) retry) = [pending, running] \<and>
   stage pending < stage failed"
  by (simp add: handleJobAction_def apply_action_def failed_job_def running_job_def terminal_def)

text \<open>
  Claim C3, as the code has it. Along pending, then running or paused, then completed or
  failed: of the actions the monitor offers for a job, pause, resume and stop never move it
  to an earlier stage; a completed job is offered no action; the one action offered for a
  failed job is retry, which moves it back to pending and resets its progress, processed and
  error counts. An action leaves every job with another id as it was.
\<close>

theorem job_actions_forward_except_retry:
  "(action \<in> set (offered (status job)) \<and> action \<noteq> retry \<longrightarrow>
      stage (status job) \<le> stage (status (apply_action action job))) \<and>
   offered completed = [] \<and>
   (status job = failed \<and> action \<in> set (offered (status job)) \<longrightarrow>
      action = retry \<and>
      apply_action action job = job\<lparr>status := pending, progress := 0, productsProcessed := 0, errorCount := 0\<rparr>) \<and>
   length (handleJobAction prev jobId action) = length prev \<and>
   (\<forall>i < length prev.
      handleJobAction prev jobId action ! i =
        (if sj_id (prev ! i) = jobId then apply_action action (prev ! i) else prev ! i))"
proof -
  have 1: "action \<in> set (offered (status job)) \<and> action \<noteq> retry \<longrightarrow>
      stage (status job) \<le> stage (status (apply_action action job))"
    by (cases "status job"; cases action) (simp_all add: apply_action_def)
  have 2: "status job = failed \<and> action \<in> set (offered (status job)) \<longrightarrow>
      action = retry \<and>
      apply_action action job = job\<lparr>status := pending, progress := 0, productsProcessed := 0, errorCount := 0\<rparr>"
    by (cases action) (simp_all add: apply_action_def)
  have 3: "length (handleJobAction prev jobId action) = length prev"
    by (simp add: handleJobAction_def)
  have 4: "\<forall>i < length prev.
      handleJobAction prev jobId action ! i =
        (if sj_id (prev ! i) = jobId then apply_action action (prev ! i) else prev ! i)"
    by (simp add: handleJobAction_def)
  show ?thesis using 1 2 3 4 by simp
qed

text \<open>Stopping the running job of a list of two: it fails, the other job is untouched.\<close>

theorem job_actions_forward_except_retry_witness:
  "stop \<in> set (offered (status running_job)) \<and> stop \<noteq> retry \<and>
   stage (status running_job) \<le> stage (status (apply_action stop running_job)) \<and>
   (1::nat) < length [failed_job, running_job] \<and>
   handleJobAction [failed_job, running_job] (sj_id running_job) stop ! 1 = apply_action stop running_job \<and>
   status failed_job = failed \<and> retry \<in> set (offered (status failed_job)) \<and>
   status (apply_action retry failed_job) = pending"
proof -
  have h1: "stop \<in> set (offered (status running_job)) \<and> stop \<noteq> retry"
    by (simp add: running_job_def)
  have h2: "(1::nat) < length [failed_job, running_job]" by simp
  have h3: "sj_id ([failed_job, running_job] ! 1) = sj_id running_job" by simp
  have h4: "status failed_job = failed \<and> retry \<in> set (offered (status failed_job))"
    by (simp add: failed_job_def)
  from job_actions_forward_except_retry [of stop running_job "[failed_job, running_job]" "sj_id running_job"] h1
  have c1: "stage (status running_job) \<le> stage (status (apply_action stop running_job))"
    by blast
  from job_actions_forward_except_retry [of stop running_job "[failed_job, running_job]" "sj_id running_job"] h2 h3
  have c2: "handleJobAction [failed_job, running_job] (sj_id running_job) stop ! 1 = apply_action stop running_job"
    by (metis nth_Cons_0 nth_Cons_Suc One_nat_def)
  from job_actions_forward_except_retry [of retry failed_job "[]" "[]"] h4
  have "apply_action retry failed_job =
      failed_job\<lparr>status := pending, progress := 0, productsProcessed := 0, errorCount := 0\<rparr>"
    by blast
  then have c3: "status (apply_action retry failed_job) = pending" by simp
  show ?thesis using h1 h2 h4 c1 c2 c3 by blast
qed

section \<open>Properties of validation and of the price tables\<close>

lemma item_get: "f \<noteq> NoKey \<Longrightarrow> item key f = Inr (get f)"
  by (cases f) (simp_all add: item_def get_def)

lemma item_NoKey: "item key NoKey = Inl (KeyError key)"
  by (simp add: item_def)

lemma build_rows_all:
  "\<forall>p \<in> set ps. p_price p \<noteq> NoKey \<Longrightarrow>
   build_rows now cur hist ps =
     Inr (cur @ map (\<lambda>(k, p). current_price_row (now k) p (get (p_price p)))
                  (zip [length cur ..< length cur + length ps] ps),
          hist @ map (\<lambda>p. price_history_row p (get (p_price p))) ps)"
proof (induction ps arbitrary: cur hist)
  case Nil
  then show ?case by simp
next
  case (Cons p ps)
  have u: "[length cur ..< length cur + length (p # ps)] =
           length cur # [Suc (length cur) ..< Suc (length cur) + length ps]"
    by (subst upt_rec) simp
  have "p_price p \<noteq> NoKey" "\<forall>q \<in> set ps. p_price q \<noteq> NoKey" using Cons.prems by simp_all
  then show ?case
    unfolding u by (simp add: item_get Cons.IH del: upt.simps)
qed

lemma build_rows_missing:
  "\<exists>p \<in> set ps. p_price p = NoKey \<Longrightarrow> build_rows now cur hist ps = Inl (KeyError ''price'')"
proof (induction ps arbitrary: cur hist)
  case Nil
  then show ?case by simp
next
  case (Cons p ps)
  show ?case
  proof (cases "p_price p = NoKey")
    case True
    then show ?thesis by (simp add: item_NoKey)
  next
    case False
    with Cons.prems have "\<exists>q \<in> set ps. p_price q = NoKey" by simp
    with False show ?thesis by (simp add: item_get Cons.IH)
  qed
qed

lemma store_rows_Inr:
  "store_rows ids rs = Inr xs \<longleftrightarrow> list_all2 (\<lambda>r x. store_row ids r = Inr x) rs xs"
proof (induction rs arbitrary: xs)
  case Nil
  show ?case by auto
next
  case (Cons r rs)
  show ?case
  proof
    assume a: "store_rows ids (r # rs) = Inr xs"
    then obtain x ys where x: "store_row ids r = Inr x" and ys: "store_rows ids rs = Inr ys"
      and xs: "xs = x # ys"
      by (auto split: sum.splits)
    from ys have "list_all2 (\<lambda>r x. store_row ids r = Inr x) rs ys" by (simp only: Cons.IH)
    with x xs show "list_all2 (\<lambda>r x. store_row ids r = Inr x) (r # rs) xs" by simp
  next
    assume "list_all2 (\<lambda>r x. store_row ids r = Inr x) (r # rs) xs"
    then obtain x ys where xs: "xs = x # ys" and x: "store_row ids r = Inr x"
      and ys: "list_all2 (\<lambda>r x. store_row ids r = Inr x) rs ys"
      by (auto simp: list_all2_Cons1)
    from ys have "store_rows ids rs = Inr ys" by (simp only: Cons.IH)
    with x xs show "store_rows ids (r # rs) = Inr xs" by simp
  qed
qed

lemma store_rows_Inl:
  "\<exists>r \<in> set rs. \<exists>e. store_row ids r = Inl e \<Longrightarrow> \<exists>e. store_rows ids rs = Inl e"
proof (induction rs)
  case Nil
  then show ?case by simp
next
  case (Cons r rs)
  show ?case
  proof (cases "store_row ids r")
    case (Inl e)
    then show ?thesis by simp
  next
    case (Inr x)
    with Cons.prems have "\<exists>r \<in> set rs. \<exists>e. store_row ids r = Inl e" by auto
    from Cons.IH [OF this] Inr show ?thesis by auto
  qed
qed

text \<open>The time of a row has no part in whether the store takes it.\<close>

lemma store_row_time:
  "store_row ids r = Inr x \<Longrightarrow> store_row ids (r\<lparr>sent_time := t\<rparr>) = Inr (x\<lparr>row_time := t\<rparr>)"
  by (auto simp: store_row_def split: if_splits option.splits sum.splits)

lemma store_row_key: "store_row ids r = Inr x \<Longrightarrow> row_store_product_id x = sent_store_product_id r"
  by (auto simp: store_row_def split: if_splits option.splits sum.splits)

lemma current_is_history_at:
  "current_price_row t p price = (price_history_row p price)\<lparr>sent_time := t\<rparr>"
  by (simp add: current_price_row_def price_history_row_def)

lemma storable_rows:
  assumes "storable ids p"
  shows "\<exists>h. history_row ids p = Inr h \<and> (\<forall>t. latest_row ids t p = Inr (h\<lparr>row_time := t\<rparr>)) \<and>
    row_store_product_id h = p_store_product_id p \<and> p_price p \<noteq> NoKey"
proof -
  from assms obtain h where h: "history_row ids p = Inr h"
    by (auto simp: storable_def split: sum.splits)
  then obtain price where i: "item ''price'' (p_price p) = Inr price"
    and s: "store_row ids (price_history_row p price) = Inr h"
    by (auto simp: history_row_def split: sum.splits)
  have l: "latest_row ids t p = Inr (h\<lparr>row_time := t\<rparr>)" for t
    unfolding latest_row_def i current_is_history_at using store_row_time [OF s] by simp
  have k: "row_store_product_id h = p_store_product_id p"
    using store_row_key [OF s] by (simp add: price_history_row_def)
  have n: "p_price p \<noteq> NoKey" using i by (auto simp: item_def)
  show ?thesis using h l k n by blast
qed

lemma not_storable_latest:
  assumes "\<not> storable ids p" "p_price p \<noteq> NoKey"
  shows "\<exists>e. store_row ids (current_price_row t p (get (p_price p))) = Inl e"
proof (rule ccontr)
  assume "\<not> ?thesis"
  then obtain x where x: "store_row ids (current_price_row t p (get (p_price p))) = Inr x"
    by (cases "store_row ids (current_price_row t p (get (p_price p)))") auto
  have "price_history_row p (get (p_price p)) =
        (current_price_row t p (get (p_price p)))\<lparr>sent_time := p_scraped_at p\<rparr>"
    by (simp add: current_price_row_def price_history_row_def)
  with store_row_time [OF x, of "p_scraped_at p"]
  have "store_row ids (price_history_row p (get (p_price p))) = Inr (x\<lparr>row_time := p_scraped_at p\<rparr>)"
    by simp
  then have "storable ids p"
    by (simp add: storable_def history_row_def item_get [OF assms(2)])
  with assms(1) show False by simp
qed

lemma set_upsert_row: "set (upsert_row r t) \<subseteq> insert r (set t)"
  by (induction t) auto

lemma keys_upsert_row:
  "set (map row_store_product_id (upsert_row r t)) =
     insert (row_store_product_id r) (set (map row_store_product_id t))"
  by (induction t) auto

lemma distinct_upsert_row:
  "distinct (map row_store_product_id t) \<Longrightarrow> distinct (map row_store_product_id (upsert_row r t))"
proof (induction t)
  case Nil
  then show ?case by simp
next
  case (Cons x xs)
  have "row_store_product_id x \<notin> set (map row_store_product_id (upsert_row r xs))"
    if "row_store_product_id x \<noteq> row_store_product_id r"
    using that Cons.prems unfolding keys_upsert_row by simp
  with Cons show ?case by auto
qed

lemma set_fold_upsert: "set (fold upsert_row rows t) \<subseteq> set rows \<union> set t"
proof (induction rows arbitrary: t)
  case Nil
  then show ?case by simp
next
  case (Cons r rows)
  show ?case using Cons.IH [of "upsert_row r t"] set_upsert_row [of r t] by auto
qed

lemma keys_fold_upsert:
  "set (map row_store_product_id (fold upsert_row rows t)) =
     set (map row_store_product_id rows) \<union> set (map row_store_product_id t)"
proof (induction rows arbitrary: t)
  case Nil
  then show ?case by simp
next
  case (Cons r rows)
  show ?case unfolding fold_simps Cons.IH keys_upsert_row by auto
qed

lemma distinct_fold_upsert:
  "distinct (map row_store_product_id t) \<Longrightarrow>
   distinct (map row_store_product_id (fold upsert_row rows t))"
  by (induction rows arbitrary: t) (simp_all add: distinct_upsert_row)

lemma upsert_row_member: "r \<in> set (upsert_row r t)"
  by (induction t) auto

lemma upsert_row_keeps:
  "x \<in> set t \<Longrightarrow> row_store_product_id x \<noteq> row_store_product_id r \<Longrightarrow> x \<in> set (upsert_row r t)"
  by (induction t) auto

lemma fold_upsert_keeps:
  "x \<in> set t \<Longrightarrow> row_store_product_id x \<notin> set (map row_store_product_id rows) \<Longrightarrow>
   x \<in> set (fold upsert_row rows t)"
  by (induction rows arbitrary: t) (auto simp: upsert_row_keeps)

lemma fold_upsert_members:
  "distinct (map row_store_product_id rows) \<Longrightarrow> r \<in> set rows \<Longrightarrow> r \<in> set (fold upsert_row rows t)"
proof (induction rows arbitrary: t)
  case Nil
  then show ?case by simp
next
  case (Cons a rows)
  show ?case
  proof (cases "r = a")
    case True
    have "a \<in> set (upsert_row a t)" by (rule upsert_row_member)
    then have "a \<in> set (fold upsert_row rows (upsert_row a t))"
      using Cons.prems(1) by (intro fold_upsert_keeps) simp_all
    with True show ?thesis by simp
  next
    case False
    with Cons show ?thesis by simp
  qed
qed

lemma upsert_row_same:
  "distinct (map row_store_product_id t) \<Longrightarrow> r \<in> set t \<Longrightarrow> upsert_row r t = t"
proof (induction t)
  case Nil
  then show ?case by simp
next
  case (Cons x xs)
  show ?case
  proof (cases "r = x")
    case True
    then show ?thesis by simp
  next
    case False
    with Cons.prems have rx: "r \<in> set xs" by simp
    then have "row_store_product_id r \<in> set (map row_store_product_id xs)" by simp
    with Cons.prems(1) have "row_store_product_id x \<noteq> row_store_product_id r" by auto
    with Cons rx show ?thesis by simp
  qed
qed

lemma fold_upsert_same:
  "distinct (map row_store_product_id t) \<Longrightarrow> set rows \<subseteq> set t \<Longrightarrow> fold upsert_row rows t = t"
  by (induction rows) (simp_all add: upsert_row_same)

lemma fold_upsert_twice:
  assumes "distinct (map row_store_product_id rows)" "distinct (map row_store_product_id t)"
  shows "fold upsert_row rows (fold upsert_row rows t) = fold upsert_row rows t"
proof (rule fold_upsert_same)
  show "distinct (map row_store_product_id (fold upsert_row rows t))"
    using assms(2) by (rule distinct_fold_upsert)
  show "set rows \<subseteq> set (fold upsert_row rows t)"
    using fold_upsert_members [OF assms(1)] by blast
qed


lemma batch_rows_stored:
  assumes ok: "\<forall>p \<in> set ps. storable ids p"
  shows "\<exists>hs. list_all2 (\<lambda>p h. history_row ids p = Inr h) ps hs \<and>
     store_rows ids (map (\<lambda>p. price_history_row p (get (p_price p))) ps) = Inr hs \<and>
     map row_store_product_id hs = map p_store_product_id ps \<and>
     (\<forall>now i. store_rows ids (map (\<lambda>(k, p). current_price_row (now k) p (get (p_price p)))
                             (zip [i ..< i + length ps] ps)) =
        Inr (map (\<lambda>(k, h). h\<lparr>row_time := now k\<rparr>) (zip [i ..< i + length ps] hs)))"
  using ok
proof (induction ps)
  case Nil
  show ?case by simp
next
  case (Cons p ps)
  then obtain hs where hs: "list_all2 (\<lambda>p h. history_row ids p = Inr h) ps hs"
    "store_rows ids (map (\<lambda>p. price_history_row p (get (p_price p))) ps) = Inr hs"
    "map row_store_product_id hs = map p_store_product_id ps"
    "\<And>now i. store_rows ids (map (\<lambda>(k, p). current_price_row (now k) p (get (p_price p)))
                             (zip [i ..< i + length ps] ps)) =
        Inr (map (\<lambda>(k, h). h\<lparr>row_time := now k\<rparr>) (zip [i ..< i + length ps] hs))"
    by auto
  have "storable ids p" using Cons.prems by simp
  from storable_rows [OF this] obtain h where h: "history_row ids p = Inr h"
    "\<And>t. latest_row ids t p = Inr (h\<lparr>row_time := t\<rparr>)"
    "row_store_product_id h = p_store_product_id p" "p_price p \<noteq> NoKey"
    by blast
  have sh: "store_row ids (price_history_row p (get (p_price p))) = Inr h"
    using h(1) by (simp add: history_row_def item_get [OF h(4)])
  have sc: "store_row ids (current_price_row t p (get (p_price p))) = Inr (h\<lparr>row_time := t\<rparr>)" for t
    using h(2) [of t] by (simp add: latest_row_def item_get [OF h(4)])
  have u: "[i ..< i + length (p # ps)] = i # [Suc i ..< Suc i + length ps]" for i
    by (subst upt_rec) simp
  have c: "store_rows ids (map (\<lambda>(k, p). current_price_row (now k) p (get (p_price p)))
                             (zip [i ..< i + length (p # ps)] (p # ps))) =
        Inr (map (\<lambda>(k, h). h\<lparr>row_time := now k\<rparr>) (zip [i ..< i + length (p # ps)] (h # hs)))"
    for now i
    unfolding u using hs(4) [of now "Suc i"] by (simp add: sc del: upt.simps)
  show ?case
    using hs(1,2,3) h(1,3) sh c by (intro exI [of _ "h # hs"]) simp
qed

lemma update_prices_stored:
  assumes hs: "store_rows (store_products store) (map (\<lambda>p. price_history_row p (get (p_price p))) (validated_products state)) = Inr hs"
      and cs: "store_rows (store_products store)
                 (map (\<lambda>(k, p). current_price_row (now k) p (get (p_price p)))
                    (zip [0 ..< 0 + length (validated_products state)] (validated_products state))) =
               Inr (map (\<lambda>(k, h). h\<lparr>row_time := now k\<rparr>)
                      (zip [0 ..< 0 + length (validated_products state)] hs))"
      and ks: "map row_store_product_id hs = map p_store_product_id (validated_products state)"
      and keys: "distinct (map p_store_product_id (validated_products state))"
      and nk: "\<forall>p \<in> set (validated_products state). p_price p \<noteq> NoKey"
  shows "update_prices now (state, store) =
     (state\<lparr>prices_updated := Some (length (validated_products state))\<rparr>,
      store\<lparr>current_prices :=
               fold upsert_row
                 (map (\<lambda>(k, h). h\<lparr>row_time := now k\<rparr>) (zip [0 ..< length (validated_products state)] hs))
                 (current_prices store),
             price_history := price_history store @ hs\<rparr>)"
proof -
  let ?ps = "validated_products state"
  let ?rows = "map (\<lambda>(k, h). h\<lparr>row_time := now k\<rparr>) (zip [0 ..< length ?ps] hs)"
  have len: "length hs = length ?ps" using ks by (metis length_map)
  have "map row_store_product_id ?rows = map row_store_product_id hs"
    by (rule nth_equalityI) (simp_all add: len)
  then have d: "distinct (map row_store_product_id ?rows)" using ks keys by simp
  have b: "build_rows now [] [] ?ps =
      Inr (map (\<lambda>(k, p). current_price_row (now k) p (get (p_price p))) (zip [0 ..< length ?ps] ?ps),
           map (\<lambda>p. price_history_row p (get (p_price p))) ?ps)"
    using build_rows_all [OF nk, of now "[]" "[]"] by simp
  have u: "upsert (store_products store)
             (map (\<lambda>(k, p). current_price_row (now k) p (get (p_price p))) (zip [0 ..< length ?ps] ?ps))
             (current_prices store) = Inr (fold upsert_row ?rows (current_prices store))"
    unfolding upsert_def using cs d by simp
  have i: "insert_rows (store_products store) (map (\<lambda>p. price_history_row p (get (p_price p))) ?ps)
             (price_history store) = Inr (price_history store @ hs)"
    unfolding insert_rows_def hs by simp
  show ?thesis
    unfolding update_prices_def Let_def fst_conv snd_conv b
    by (simp add: u i)
qed

lemma update_prices_refused:
  assumes "\<exists>p \<in> set (validated_products state). \<not> storable (store_products store) p"
  shows "snd (update_prices now (state, store)) = store"
proof (cases "\<exists>p \<in> set (validated_products state). p_price p = NoKey")
  case True
  show ?thesis
    unfolding update_prices_def Let_def fst_conv snd_conv build_rows_missing [OF True] by simp
next
  case False
  let ?ps = "validated_products state"
  let ?cur = "map (\<lambda>(k, p). current_price_row (now k) p (get (p_price p))) (zip [0 ..< length ?ps] ?ps)"
  from False have nk: "\<forall>p \<in> set ?ps. p_price p \<noteq> NoKey" by simp
  have b: "build_rows now [] [] ?ps =
      Inr (?cur, map (\<lambda>p. price_history_row p (get (p_price p))) ?ps)"
    using build_rows_all [OF nk, of now "[]" "[]"] by simp
  from assms obtain p where p: "p \<in> set ?ps" "\<not> storable (store_products store) p" by blast
  from p(1) obtain k where k: "k < length ?ps" "?ps ! k = p" by (auto simp: in_set_conv_nth)
  have "?cur ! k = current_price_row (now k) p (get (p_price p))" using k by simp
  moreover have "k < length ?cur" using k by simp
  ultimately have "current_price_row (now k) p (get (p_price p)) \<in> set ?cur"
    by (metis nth_mem)
  moreover have "\<exists>e. store_row (store_products store) (current_price_row (now k) p (get (p_price p))) = Inl e"
    using not_storable_latest [OF p(2)] nk p(1) by blast
  ultimately have "\<exists>e. store_rows (store_products store) ?cur = Inl e"
    by (intro store_rows_Inl) blast
  then obtain e where "upsert (store_products store) ?cur (current_prices store) = Inl e"
    by (auto simp: upsert_def)
  then show ?thesis
    unfolding update_prices_def Let_def fst_conv snd_conv b by simp
qed

lemma fold_upsert_other_keys:
  assumes "row_store_product_id r \<notin> set (map row_store_product_id rows)"
  shows "r \<in> set (fold upsert_row rows t) \<longleftrightarrow> r \<in> set t"
proof
  assume "r \<in> set (fold upsert_row rows t)"
  then have "r \<in> set rows \<union> set t" using set_fold_upsert by blast
  moreover have "r \<notin> set rows" using assms by auto
  ultimately show "r \<in> set t" by simp
next
  assume "r \<in> set t"
  then show "r \<in> set (fold upsert_row rows t)" using assms by (rule fold_upsert_keeps)
qed

text \<open>
  One validated product written twice to empty tables: there is one row in \<open>current_prices\<close>
  and there are two equal rows in \<open>price_history\<close>, where one application leaves one.
\<close>

theorem second_application_duplicates_history:
  "length (current_prices (snd (update_prices at_2000 (update_prices at_2000
      (state_of_batch [milk], empty_catalog))))) = 1 \<and>
   length (price_history (snd (update_prices at_2000 (state_of_batch [milk], empty_catalog)))) = 1 \<and>
   map row_time (price_history (snd (update_prices at_2000 (update_prices at_2000
      (state_of_batch [milk], empty_catalog))))) = [1000, 1000] \<and>
   map row_store_product_id (price_history (snd (update_prices at_2000 (update_prices at_2000
      (state_of_batch [milk], empty_catalog))))) = [11, 11] \<and>
   snd (update_prices at_2000 (update_prices at_2000 (state_of_batch [milk], empty_catalog))) \<noteq>
     snd (update_prices at_2000 (state_of_batch [milk], empty_catalog))"
  by (simp add: update_prices_def item_def get_def get_or_def upsert_def insert_rows_def
      store_row_def numeric_def numeric_or_null_def decimal2_def state_of_batch_def
      milk_def empty_catalog_def current_price_row_def price_history_row_def at_2000_def)

text \<open>
  Claim C2, as the code has it. Take a batch of validated products with distinct
  \<open>store_product_id\<close>s, each of which the store takes, and tables that respect the unique key
  of \<open>current_prices\<close>, and apply the batch twice. After the second application, as after the
  first, \<open>current_prices\<close> has exactly one row per \<open>store_product_id\<close>: for every product of the
  batch it holds the row of that product at the clock reading of the application, the rows
  of other products are those it had, and it has as many rows as after the first; it is the
  same table when the clock reads the same. \<open>price_history\<close> is written by a plain insert: it
  holds every history row of the batch once after the first application and twice after the
  second. A batch with a product the store refuses (an unknown \<open>store_product_id\<close>, a price
  that is missing, \<open>None\<close>, not a finite number, or of 10^8 or more) writes nothing.
\<close>

theorem second_application_keeps_latest_repeats_history:
  "(let ps = validated_products state;
        ids = store_products store;
        once = snd (update_prices t1 (state, store));
        twice = snd (update_prices t2 (update_prices t1 (state, store)))
    in
     ((\<forall>p \<in> set ps. storable ids p) \<and>
      distinct (map p_store_product_id ps) \<and>
      distinct (map row_store_product_id (current_prices store)) \<longrightarrow>
        distinct (map row_store_product_id (current_prices twice)) \<and>
        (\<forall>k < length ps. \<exists>r. latest_row ids (t2 k) (ps ! k) = Inr r \<and> r \<in> set (current_prices twice)) \<and>
        (\<forall>k < length ps. \<exists>r. latest_row ids (t1 k) (ps ! k) = Inr r \<and> r \<in> set (current_prices once)) \<and>
        (\<forall>r. row_store_product_id r \<notin> set (map p_store_product_id ps) \<longrightarrow>
             (r \<in> set (current_prices twice) \<longleftrightarrow> r \<in> set (current_prices store))) \<and>
        length (current_prices twice) = length (current_prices once) \<and>
        ((\<forall>k < length ps. t2 k = t1 k) \<longrightarrow> current_prices twice = current_prices once) \<and>
        (\<exists>hs. list_all2 (\<lambda>p h. history_row ids p = Inr h) ps hs \<and>
              price_history once = price_history store @ hs \<and>
              price_history twice = price_history store @ hs @ hs)) \<and>
     ((\<exists>p \<in> set ps. \<not> storable ids p) \<longrightarrow> once = store))"
proof -
  let ?ps = "validated_products state"
  let ?ids = "store_products store"
  let ?once = "snd (update_prices t1 (state, store))"
  let ?twice = "snd (update_prices t2 (update_prices t1 (state, store)))"
  have B: "once_refused"
    if "\<exists>p \<in> set ?ps. \<not> storable ?ids p" and "once_refused = (?once = store)" for once_refused
    using that update_prices_refused [of state store t1] by simp
  have A: "distinct (map row_store_product_id (current_prices ?twice)) \<and>
        (\<forall>k < length ?ps. \<exists>r. latest_row ?ids (t2 k) (?ps ! k) = Inr r \<and> r \<in> set (current_prices ?twice)) \<and>
        (\<forall>k < length ?ps. \<exists>r. latest_row ?ids (t1 k) (?ps ! k) = Inr r \<and> r \<in> set (current_prices ?once)) \<and>
        (\<forall>r. row_store_product_id r \<notin> set (map p_store_product_id ?ps) \<longrightarrow>
             (r \<in> set (current_prices ?twice) \<longleftrightarrow> r \<in> set (current_prices store))) \<and>
        length (current_prices ?twice) = length (current_prices ?once) \<and>
        ((\<forall>k < length ?ps. t2 k = t1 k) \<longrightarrow> current_prices ?twice = current_prices ?once) \<and>
        (\<exists>hs. list_all2 (\<lambda>p h. history_row ?ids p = Inr h) ?ps hs \<and>
              price_history ?once = price_history store @ hs \<and>
              price_history ?twice = price_history store @ hs @ hs)"
    if ok: "\<forall>p \<in> set ?ps. storable ?ids p"
      and keys: "distinct (map p_store_product_id ?ps)"
      and uniq: "distinct (map row_store_product_id (current_prices store))"
  proof -
    from batch_rows_stored [OF ok] obtain hs where
      hl: "list_all2 (\<lambda>p h. history_row ?ids p = Inr h) ?ps hs"
      and hs: "store_rows ?ids (map (\<lambda>p. price_history_row p (get (p_price p))) ?ps) = Inr hs"
      and ks: "map row_store_product_id hs = map p_store_product_id ?ps"
      and cs: "\<And>now i. store_rows ?ids (map (\<lambda>(k, p). current_price_row (now k) p (get (p_price p)))
                             (zip [i ..< i + length ?ps] ?ps)) =
        Inr (map (\<lambda>(k, h). h\<lparr>row_time := now k\<rparr>) (zip [i ..< i + length ?ps] hs))"
      by blast
    have len: "length hs = length ?ps" using hl by (simp add: list_all2_lengthD)
    have nk: "\<forall>p \<in> set ?ps. p_price p \<noteq> NoKey"
      using ok storable_rows by blast
    let ?rows = "\<lambda>now. map (\<lambda>(k, h). h\<lparr>row_time := now k\<rparr>) (zip [0 ..< length ?ps] hs)"
    let ?T1 = "fold upsert_row (?rows t1) (current_prices store)"
    let ?T2 = "fold upsert_row (?rows t2) ?T1"
    let ?s1 = "state\<lparr>prices_updated := Some (length ?ps)\<rparr>"
    let ?c1 = "store\<lparr>current_prices := ?T1, price_history := price_history store @ hs\<rparr>"
    have once: "update_prices t1 (state, store) = (?s1, ?c1)"
      by (rule update_prices_stored [OF hs cs [of t1 0] ks keys nk])
    have twice: "update_prices t2 (?s1, ?c1) =
        (?s1\<lparr>prices_updated := Some (length ?ps)\<rparr>,
         ?c1\<lparr>current_prices := ?T2, price_history := (price_history store @ hs) @ hs\<rparr>)"
      using update_prices_stored [of ?c1 ?s1 hs t2] hs cs [of t2 0] ks keys nk by simp
    have c2: "current_prices ?twice = ?T2" and h2: "price_history ?twice = price_history store @ hs @ hs"
      unfolding once twice by simp_all
    have c1: "current_prices ?once = ?T1" and h1: "price_history ?once = price_history store @ hs"
      unfolding once by simp_all
    have rk: "map row_store_product_id (?rows now) = map p_store_product_id ?ps" for now
      unfolding ks [symmetric] by (rule nth_equalityI) (simp_all add: len)
    have dr: "distinct (map row_store_product_id (?rows now))" for now
      unfolding rk by (rule keys)
    have d1: "distinct (map row_store_product_id ?T1)"
      using uniq by (rule distinct_fold_upsert)
    then have d2: "distinct (map row_store_product_id ?T2)"
      by (rule distinct_fold_upsert)
    have row: "latest_row ?ids (now k) (?ps ! k) = Inr (?rows now ! k) \<and> ?rows now ! k \<in> set (?rows now)"
      if k: "k < length ?ps" for now k
    proof -
      have "history_row ?ids (?ps ! k) = Inr (hs ! k)"
        using hl k by (simp add: list_all2_conv_all_nth)
      moreover have "storable ?ids (?ps ! k)" using ok k by simp
      ultimately have "latest_row ?ids (now k) (?ps ! k) = Inr ((hs ! k)\<lparr>row_time := now k\<rparr>)"
        using storable_rows [of ?ids "?ps ! k"] by auto
      moreover have "?rows now ! k = (hs ! k)\<lparr>row_time := now k\<rparr>" using k len by simp
      moreover have "k < length (?rows now)" using k len by simp
      ultimately show ?thesis by (metis nth_mem)
    qed
    have m2: "\<forall>k < length ?ps. \<exists>r. latest_row ?ids (t2 k) (?ps ! k) = Inr r \<and> r \<in> set ?T2"
      using row [of _ t2] fold_upsert_members [OF dr [of t2]] by blast
    have m1: "\<forall>k < length ?ps. \<exists>r. latest_row ?ids (t1 k) (?ps ! k) = Inr r \<and> r \<in> set ?T1"
      using row [of _ t1] fold_upsert_members [OF dr [of t1]] by blast
    have o: "r \<in> set ?T2 \<longleftrightarrow> r \<in> set (current_prices store)"
      if "row_store_product_id r \<notin> set (map p_store_product_id ?ps)" for r
    proof -
      have "row_store_product_id r \<notin> set (map row_store_product_id (?rows now))" for now
        unfolding rk using that .
      then show ?thesis using fold_upsert_other_keys by blast
    qed
    have s: "set (map row_store_product_id ?T2) = set (map row_store_product_id ?T1)"
      unfolding keys_fold_upsert [of "?rows t2"] keys_fold_upsert [of "?rows t1"] rk by blast
    have "length (map row_store_product_id ?T2) = card (set (map row_store_product_id ?T2))"
      using d2 by (rule distinct_card [symmetric])
    also have "\<dots> = card (set (map row_store_product_id ?T1))"
      by (simp only: s)
    also have "\<dots> = length (map row_store_product_id ?T1)"
      using d1 by (rule distinct_card)
    finally have l: "length ?T2 = length ?T1" by (simp only: length_map)
    have e: "?T2 = ?T1" if same: "\<forall>k < length ?ps. t2 k = t1 k"
    proof -
      have eq: "?rows t2 = ?rows t1"
        by (rule nth_equalityI) (simp_all add: len same)
      show ?thesis unfolding eq by (rule fold_upsert_twice [OF dr [of t1] uniq])
    qed
    show ?thesis
      unfolding c2 h2 c1 h1 using d2 m2 m1 o l e hl by blast
  qed
  show ?thesis
    unfolding Let_def using A B by blast
qed

text \<open>
  A batch of two products written at two clock readings to empty tables, and a batch with a
  product whose price is 10^8, which the store refuses.
\<close>

theorem second_application_keeps_latest_repeats_history_witness:
  "storable (store_products empty_catalog) milk \<and> storable (store_products empty_catalog) sample \<and>
   distinct (map p_store_product_id [milk, sample]) \<and>
   distinct (map row_store_product_id (current_prices empty_catalog)) \<and>
   length (current_prices (snd (update_prices at_3000 (update_prices at_2000
      (state_of_batch [milk, sample], empty_catalog))))) =
   length (current_prices (snd (update_prices at_2000 (state_of_batch [milk, sample], empty_catalog)))) \<and>
   (\<exists>r. latest_row (store_products empty_catalog) (at_3000 1) sample = Inr r \<and>
        r \<in> set (current_prices (snd (update_prices at_3000 (update_prices at_2000
               (state_of_batch [milk, sample], empty_catalog)))))) \<and>
   (\<exists>hs. length hs = 2 \<and>
         price_history (snd (update_prices at_3000 (update_prices at_2000
               (state_of_batch [milk, sample], empty_catalog)))) = hs @ hs) \<and>
   \<not> storable (store_products empty_catalog) gold \<and>
   snd (update_prices at_2000 (state_of_batch [milk, gold], empty_catalog)) = empty_catalog"
proof -
  have s1: "storable (store_products empty_catalog) milk"
    by (simp add: storable_def history_row_def item_def store_row_def numeric_def
        numeric_or_null_def decimal2_def get_def price_history_row_def milk_def empty_catalog_def)
  have s2: "storable (store_products empty_catalog) sample"
    by (simp add: storable_def history_row_def item_def store_row_def numeric_def
        numeric_or_null_def decimal2_def get_def price_history_row_def sample_def empty_catalog_def)
  have s3: "\<not> storable (store_products empty_catalog) gold"
    by (simp add: storable_def history_row_def item_def store_row_def numeric_def
        numeric_or_null_def decimal2_def get_def price_history_row_def gold_def milk_def
        empty_catalog_def)
  have d1: "distinct (map p_store_product_id [milk, sample])"
    by (simp add: milk_def sample_def)
  have d2: "distinct (map row_store_product_id (current_prices empty_catalog))"
    by (simp add: empty_catalog_def)
  have v: "validated_products (state_of_batch [milk, sample]) = [milk, sample]"
    "validated_products (state_of_batch [milk, gold]) = [milk, gold]"
    by (simp_all add: state_of_batch_def)
  have e: "price_history empty_catalog = []" by (simp add: empty_catalog_def)
  note t = second_application_keeps_latest_repeats_history
      [of "state_of_batch [milk, sample]" empty_catalog at_2000 at_3000, unfolded Let_def v]
  have ok: "\<forall>p \<in> set [milk, sample]. storable (store_products empty_catalog) p"
    using s1 s2 by simp
  from t ok d1 d2
  have l: "length (current_prices (snd (update_prices at_3000 (update_prices at_2000
      (state_of_batch [milk, sample], empty_catalog))))) =
   length (current_prices (snd (update_prices at_2000 (state_of_batch [milk, sample], empty_catalog))))"
    by blast
  from t ok d1 d2
  have "\<forall>k < length [milk, sample]. \<exists>r. latest_row (store_products empty_catalog) (at_3000 k) ([milk, sample] ! k) = Inr r \<and>
        r \<in> set (current_prices (snd (update_prices at_3000 (update_prices at_2000
               (state_of_batch [milk, sample], empty_catalog)))))"
    by blast
  then have "1 < length [milk, sample] \<longrightarrow> (\<exists>r. latest_row (store_products empty_catalog) (at_3000 1) ([milk, sample] ! 1) = Inr r \<and>
        r \<in> set (current_prices (snd (update_prices at_3000 (update_prices at_2000
               (state_of_batch [milk, sample], empty_catalog))))))"
    by blast
  then have m: "\<exists>r. latest_row (store_products empty_catalog) (at_3000 1) sample = Inr r \<and>
        r \<in> set (current_prices (snd (update_prices at_3000 (update_prices at_2000
               (state_of_batch [milk, sample], empty_catalog)))))"
    by simp
  from t ok d1 d2
  obtain hs where hs: "list_all2 (\<lambda>p h. history_row (store_products empty_catalog) p = Inr h) [milk, sample] hs"
    "price_history (snd (update_prices at_3000 (update_prices at_2000
               (state_of_batch [milk, sample], empty_catalog)))) = price_history empty_catalog @ hs @ hs"
    by blast
  have "length hs = 2" using hs(1) by (auto dest: list_all2_lengthD)
  with hs(2) have h: "\<exists>hs. length hs = 2 \<and>
         price_history (snd (update_prices at_3000 (update_prices at_2000
               (state_of_batch [milk, sample], empty_catalog)))) = hs @ hs"
    unfolding e by auto
  note u = second_application_keeps_latest_repeats_history
      [of "state_of_batch [milk, gold]" empty_catalog at_2000 at_2000, unfolded Let_def v]
  have "\<exists>p \<in> set [milk, gold]. \<not> storable (store_products empty_catalog) p" using s3 by simp
  with u have r: "snd (update_prices at_2000 (state_of_batch [milk, gold], empty_catalog)) = empty_catalog"
    by blast
  show ?thesis using s1 s2 d1 d2 l m h s3 r by blast
qed

lemma validate_raises:
  "validate_product_data p = Inl e \<longleftrightarrow> e = TypeError \<and> p_price p = IsNone"
  by (cases "p_price p" rule: entry.exhaust)
     (auto simp: validate_product_data_def le_zero_def get_or_def Let_def split: py_float.splits)

lemma validate_invalid_price:
  "validate_product_data p = Inr errs \<Longrightarrow>
   ''Invalid price'' \<in> set errs \<longleftrightarrow>
     p_price p = NoKey \<or> p_price p = Value NegInf \<or> (\<exists>v. p_price p = Value (Number v) \<and> v \<le> 0)"
  by (cases "p_price p" rule: entry.exhaust)
     (auto simp: validate_product_data_def le_zero_def get_or_def Let_def
           split: py_float.splits if_splits)

lemma decimal2_positive:
  assumes "0 < v"
  shows "0 \<le> decimal2 v \<and> (0 < decimal2 v \<longleftrightarrow> 5 / 1000 \<le> v)"
proof -
  have d: "decimal2 v = of_int \<lfloor>v * 100 + 1 / 2\<rfloor> / 100" using assms by (simp add: decimal2_def)
  have "0 \<le> \<lfloor>v * 100 + 1 / 2\<rfloor>" using assms by simp
  then have 1: "0 \<le> decimal2 v" unfolding d by simp
  have "0 < \<lfloor>v * 100 + 1 / 2\<rfloor> \<longleftrightarrow> 1 \<le> v * 100 + 1 / 2"
    by (metis floor_less_cancel less_le_not_le of_int_0 of_int_1 one_le_floor zero_less_floor int_one_le_iff_zero_less)
  also have "\<dots> \<longleftrightarrow> 5 / 1000 \<le> v" by auto
  finally have "0 < decimal2 v \<longleftrightarrow> 5 / 1000 \<le> v" unfolding d by simp
  with 1 show ?thesis by simp
qed

lemma stored_price:
  assumes "store_row ids r = Inr x"
  shows "\<exists>v. sent_price r = Some (Number v) \<and> row_price x = decimal2 v"
proof -
  from assms obtain y price where y: "sent_price r = Some y" and n: "numeric 8 y = Inr price"
    and p: "row_price x = price"
    by (auto simp: store_row_def split: if_splits option.splits sum.splits)
  from n obtain v where "y = Number v" "price = decimal2 v"
    by (cases y) (auto simp: numeric_def split: if_splits)
  with y p show ?thesis by simp
qed

lemma get_Some: "get f = Some v \<longleftrightarrow> f = Value v"
  by (cases f) (simp_all add: get_def)

lemma store_rows_origin:
  assumes "store_rows ids rs = Inr xs" "x \<in> set xs"
  shows "\<exists>r \<in> set rs. store_row ids r = Inr x"
proof -
  from assms(1) have l: "list_all2 (\<lambda>r x. store_row ids r = Inr x) rs xs"
    by (simp only: store_rows_Inr)
  from assms(2) obtain k where k: "k < length xs" "xs ! k = x" by (auto simp: in_set_conv_nth)
  from l k have "store_row ids (rs ! k) = Inr x" "k < length rs"
    by (auto simp: list_all2_conv_all_nth)
  then show ?thesis by (metis nth_mem)
qed

lemma new_rows_origin:
  assumes r: "r \<in> set (current_prices (snd (update_prices now (state, store)))) \<union>
                  set (price_history (snd (update_prices now (state, store))))"
  shows "r \<in> set (current_prices store) \<union> set (price_history store) \<or>
         (\<exists>q \<in> set (validated_products state). \<exists>v. p_price q = Value (Number v) \<and> row_price r = decimal2 v)"
proof (cases "\<exists>p \<in> set (validated_products state). p_price p = NoKey")
  case True
  have "snd (update_prices now (state, store)) = store"
    unfolding update_prices_def Let_def fst_conv snd_conv build_rows_missing [OF True] by simp
  with r show ?thesis by simp
next
  case False
  let ?ps = "validated_products state"
  let ?ids = "store_products store"
  let ?cur = "map (\<lambda>(k, p). current_price_row (now k) p (get (p_price p))) (zip [0 ..< length ?ps] ?ps)"
  let ?hist = "map (\<lambda>p. price_history_row p (get (p_price p))) ?ps"
  from False have nk: "\<forall>p \<in> set ?ps. p_price p \<noteq> NoKey" by simp
  have b: "build_rows now [] [] ?ps = Inr (?cur, ?hist)"
    using build_rows_all [OF nk, of now "[]" "[]"] by simp
  have from_cur: "\<exists>q \<in> set ?ps. \<exists>v. p_price q = Value (Number v) \<and> row_price x = decimal2 v"
    if "store_rows ?ids ?cur = Inr xs" "x \<in> set xs" for xs x
  proof -
    from store_rows_origin [OF that] obtain s where s: "s \<in> set ?cur" "store_row ?ids s = Inr x"
      by blast
    from s(1) obtain k q where q: "q \<in> set ?ps" "s = current_price_row (now k) q (get (p_price q))"
      by (auto dest: set_zip_rightD)
    from stored_price [OF s(2)] obtain v where "sent_price s = Some (Number v)" "row_price x = decimal2 v"
      by blast
    then have "p_price q = Value (Number v)" "row_price x = decimal2 v"
      unfolding q(2) by (simp_all add: current_price_row_def get_Some)
    with q(1) show ?thesis by blast
  qed
  have from_hist: "\<exists>q \<in> set ?ps. \<exists>v. p_price q = Value (Number v) \<and> row_price x = decimal2 v"
    if "store_rows ?ids ?hist = Inr xs" "x \<in> set xs" for xs x
  proof -
    from store_rows_origin [OF that] obtain s where s: "s \<in> set ?hist" "store_row ?ids s = Inr x"
      by blast
    from s(1) obtain q where q: "q \<in> set ?ps" "s = price_history_row q (get (p_price q))"
      by auto
    from stored_price [OF s(2)] obtain v where "sent_price s = Some (Number v)" "row_price x = decimal2 v"
      by blast
    then have "p_price q = Value (Number v)" "row_price x = decimal2 v"
      unfolding q(2) by (simp_all add: price_history_row_def get_Some)
    with q(1) show ?thesis by blast
  qed
  show ?thesis
  proof (cases "upsert ?ids ?cur (current_prices store)")
    case (Inl e)
    then have "snd (update_prices now (state, store)) = store"
      unfolding update_prices_def Let_def fst_conv snd_conv b by simp
    with r show ?thesis by simp
  next
    case (Inr table)
    then obtain xs where xs: "store_rows ?ids ?cur = Inr xs"
      and t: "table = fold upsert_row xs (current_prices store)"
      by (auto simp: upsert_def split: sum.splits if_splits)
    have tab: "x \<in> set (current_prices store) \<or>
        (\<exists>q \<in> set ?ps. \<exists>v. p_price q = Value (Number v) \<and> row_price x = decimal2 v)"
      if "x \<in> set table" for x
    proof -
      from that have "x \<in> set xs \<union> set (current_prices store)"
        unfolding t using set_fold_upsert by blast
      then show ?thesis using from_cur [OF xs] by blast
    qed
    show ?thesis
    proof (cases "insert_rows ?ids ?hist (price_history store)")
      case (Inl e)
      have "snd (update_prices now (state, store)) = store\<lparr>current_prices := table\<rparr>"
        unfolding update_prices_def Let_def fst_conv snd_conv b using Inr Inl by simp
      with r have "r \<in> set table \<or> r \<in> set (price_history store)" by auto
      then show ?thesis using tab by blast
    next
      case (Inr history)
      then obtain hs where hs: "store_rows ?ids ?hist = Inr hs"
        and h: "history = price_history store @ hs"
        by (auto simp: insert_rows_def split: sum.splits)
      have "snd (update_prices now (state, store)) =
          store\<lparr>current_prices := table, price_history := history\<rparr>"
        unfolding update_prices_def Let_def fst_conv snd_conv b
        using \<open>upsert ?ids ?cur (current_prices store) = Inr table\<close> Inr by simp
      with r have "r \<in> set table \<or> r \<in> set (price_history store) \<or> r \<in> set hs"
        unfolding h by auto
      then show ?thesis using tab from_hist [OF hs] by blast
    qed
  qed
qed

text \<open>
  A price of 0.004 is not reported and is committed as 0.00; a NaN price is not reported
  either; a price that is \<open>None\<close> makes the validation raise.
\<close>

theorem small_price_is_committed_as_zero:
  "validate_product_data sample = Inr [] \<and>
   map row_price (current_prices (snd (update_prices at_2000 (state_of_batch [sample], empty_catalog)))) = [0] \<and>
   map row_price (price_history (snd (update_prices at_2000 (state_of_batch [sample], empty_catalog)))) = [0] \<and>
   validate_product_data nan_priced = Inr [] \<and>
   validate_product_data unpriced = Inl TypeError"
  by (simp add: validate_product_data_def le_zero_def update_prices_def item_def get_def get_or_def
      upsert_def insert_rows_def store_row_def numeric_def numeric_or_null_def decimal2_def
      state_of_batch_def sample_def nan_priced_def unpriced_def milk_def empty_catalog_def
      current_price_row_def price_history_row_def)

text \<open>
  Claim C7, as the code has it. Validation raises exactly when the price is \<open>None\<close>.
  Otherwise it reports an invalid price exactly when the price is missing (it is read as 0),
  is a number less than or equal to zero, or is minus infinity; a NaN is not reported. The
  code that writes makes no check of its own. When every product it is given has passed the
  check, every row it writes has the value of such a product, a number greater than 0,
  rounded to two decimals by the column: the committed value is greater than or equal to 0,
  and greater than 0 exactly when the product's value is at least 0.005.
\<close>

theorem committed_prices_rounded:
  "(validate_product_data p = Inl e \<longleftrightarrow> e = TypeError \<and> p_price p = IsNone) \<and>
   (validate_product_data p = Inr errs \<longrightarrow>
      (''Invalid price'' \<in> set errs \<longleftrightarrow>
         p_price p = NoKey \<or> p_price p = Value NegInf \<or> (\<exists>v. p_price p = Value (Number v) \<and> v \<le> 0))) \<and>
   ((\<forall>q \<in> set (validated_products state).
        \<exists>es. validate_product_data q = Inr es \<and> ''Invalid price'' \<notin> set es) \<and>
    r \<in> set (current_prices (snd (update_prices now (state, store)))) \<union>
        set (price_history (snd (update_prices now (state, store)))) \<longrightarrow>
      r \<in> set (current_prices store) \<union> set (price_history store) \<or>
      (\<exists>q \<in> set (validated_products state). \<exists>v.
          p_price q = Value (Number v) \<and> 0 < v \<and> row_price r = decimal2 v \<and>
          0 \<le> row_price r \<and> (0 < row_price r \<longleftrightarrow> 5 / 1000 \<le> v)))"
proof -
  have 1: "validate_product_data p = Inl e \<longleftrightarrow> e = TypeError \<and> p_price p = IsNone"
    by (rule validate_raises)
  have 2: "validate_product_data p = Inr errs \<longrightarrow>
      (''Invalid price'' \<in> set errs \<longleftrightarrow>
         p_price p = NoKey \<or> p_price p = Value NegInf \<or> (\<exists>v. p_price p = Value (Number v) \<and> v \<le> 0))"
    using validate_invalid_price by blast
  have 3: "r \<in> set (current_prices store) \<union> set (price_history store) \<or>
      (\<exists>q \<in> set (validated_products state). \<exists>v.
          p_price q = Value (Number v) \<and> 0 < v \<and> row_price r = decimal2 v \<and>
          0 \<le> row_price r \<and> (0 < row_price r \<longleftrightarrow> 5 / 1000 \<le> v))"
    if passed: "\<forall>q \<in> set (validated_products state).
        \<exists>es. validate_product_data q = Inr es \<and> ''Invalid price'' \<notin> set es"
      and r: "r \<in> set (current_prices (snd (update_prices now (state, store)))) \<union>
        set (price_history (snd (update_prices now (state, store))))"
  proof (cases "r \<in> set (current_prices store) \<union> set (price_history store)")
    case True
    then show ?thesis by simp
  next
    case False
    with new_rows_origin [OF r] obtain q v where q: "q \<in> set (validated_products state)"
      "p_price q = Value (Number v)" "row_price r = decimal2 v"
      by blast
    from passed q(1) obtain es where es: "validate_product_data q = Inr es" "''Invalid price'' \<notin> set es"
      by blast
    have "\<not> v \<le> 0" using validate_invalid_price [OF es(1)] es(2) q(2) by simp
    then have v: "0 < v" by simp
    have "p_price q = Value (Number v) \<and> 0 < v \<and> row_price r = decimal2 v \<and>
          0 \<le> row_price r \<and> (0 < row_price r \<longleftrightarrow> 5 / 1000 \<le> v)"
      using decimal2_positive [OF v] q(2,3) v by simp
    with q(1) show ?thesis by blast
  qed
  show ?thesis using 1 2 3 by blast
qed

text \<open>
  A product whose price is 0 is reported; a batch of a priced product and of one whose price
  is 0.004, both of which pass the check, is written with the values 1.29 and 0.00.
\<close>

theorem committed_prices_rounded_witness:
  "validate_product_data free_bread = Inr [''Invalid price''] \<and>
   p_price free_bread = Value (Number 0) \<and>
   validate_product_data unpriced = Inl TypeError \<and> p_price unpriced = IsNone \<and>
   validate_product_data milk = Inr [] \<and> validate_product_data sample = Inr [] \<and>
   map row_price (current_prices (snd (update_prices at_2000
      (state_of_batch [milk, sample], empty_catalog)))) = [129 / 100, 0] \<and>
   (\<exists>q \<in> set [milk, sample]. \<exists>v. p_price q = Value (Number v) \<and> 0 < v \<and> v < 5 / 1000 \<and> decimal2 v = 0)"
proof -
  have f: "validate_product_data free_bread = Inr [''Invalid price'']"
    "p_price free_bread = Value (Number 0)"
    by (simp_all add: validate_product_data_def le_zero_def get_or_def free_bread_def milk_def)
  have u: "p_price unpriced = IsNone" by (simp add: unpriced_def)
  have m: "validate_product_data milk = Inr []" "validate_product_data sample = Inr []"
    by (simp_all add: validate_product_data_def le_zero_def get_or_def milk_def sample_def)
  have c: "map row_price (current_prices (snd (update_prices at_2000
      (state_of_batch [milk, sample], empty_catalog)))) = [129 / 100, 0]"
    by (simp add: update_prices_def item_def get_def get_or_def upsert_def insert_rows_def
        store_row_def numeric_def numeric_or_null_def decimal2_def state_of_batch_def
        sample_def milk_def empty_catalog_def current_price_row_def price_history_row_def)
  let ?new = "snd (update_prices at_2000 (state_of_batch [milk, sample], empty_catalog))"
  have "length (current_prices ?new) = 2" "row_price (current_prices ?new ! 1) = 0"
    using c by (auto simp: map_eq_Cons_conv)
  then have r: "current_prices ?new ! 1 \<in> set (current_prices ?new) \<union> set (price_history ?new)"
    and z: "row_price (current_prices ?new ! 1) = 0"
    by simp_all
  have old: "current_prices ?new ! 1 \<notin> set (current_prices empty_catalog) \<union> set (price_history empty_catalog)"
    by (simp add: empty_catalog_def)
  have passed: "\<forall>q \<in> set (validated_products (state_of_batch [milk, sample])).
        \<exists>es. validate_product_data q = Inr es \<and> ''Invalid price'' \<notin> set es"
    using m by (simp add: state_of_batch_def)
  note t = committed_prices_rounded
    [of unpriced TypeError "[]" "state_of_batch [milk, sample]" "current_prices ?new ! 1"
        at_2000 empty_catalog]
  from t u have c1: "validate_product_data unpriced = Inl TypeError" by blast
  from t passed r old
  obtain q v where q: "q \<in> set (validated_products (state_of_batch [milk, sample]))"
    "p_price q = Value (Number v)" "0 < v" "row_price (current_prices ?new ! 1) = decimal2 v"
    "0 < row_price (current_prices ?new ! 1) \<longleftrightarrow> 5 / 1000 \<le> v"
    by blast
  have "v < 5 / 1000" "decimal2 v = 0" using q(4,5) z by simp_all
  with q(1,2,3) have c2: "\<exists>q \<in> set [milk, sample]. \<exists>v. p_price q = Value (Number v) \<and> 0 < v \<and> v < 5 / 1000 \<and> decimal2 v = 0"
    by (auto simp: state_of_batch_def)
  show ?thesis using f u c1 m c c2 by blast
qed

section \<open>Properties of the orchestrator\<close>


















end
